theory Spec2Isabelle
  imports Main "HOL-Library.Word"
begin

unbundle bit_operations_syntax

section \<open>Memory and pointers\<close>

text \<open>
  The slab bank is one allocation, addressed in the source through \<open>void*\<close>, \<open>void**\<close>
  and \<open>std::atomic<int64_t>*\<close>. Every access of the code is to an aligned 8-byte word of the
  bank or to an aligned 2- or 4-byte field of such a word, so the memory is a map from
  pointers to 64-bit words, and a pointer is the address of the allocation it points into
  (the numeric value of \<open>slabs\<close>) together with an offset counted in 8-byte words. Offsets
  are unbounded integers: the prefetch load of \<open>Pop\<close> may read below the start of a region.
\<close>

type_synonym ptr = "64 word \<times> int"

type_synonym memory = "ptr \<Rightarrow> 64 word"

definition ptr_add :: "ptr \<Rightarrow> int \<Rightarrow> ptr" where
  "ptr_add p n = (fst p, snd p + n)"

text \<open>\<open>reinterpret_cast<uintptr_t>(p)\<close>: the address of the word a pointer points to.\<close>

definition uintptr :: "ptr \<Rightarrow> 64 word" where
  "uintptr p = fst p + 8 * word_of_int (snd p)"

text \<open>A 2-byte load at byte offset \<open>off\<close> (0, 2, 4 or 6) of a little-endian 8-byte word.\<close>

definition load16 :: "64 word \<Rightarrow> nat \<Rightarrow> 16 word" where
  "load16 w off = ucast (drop_bit (8 * off) w)"

text \<open>A 2-byte store at byte offset 0, and a 4-byte store at byte offset 4, of an 8-byte word.\<close>

definition store16_lo :: "64 word \<Rightarrow> 16 word \<Rightarrow> 64 word" where
  "store16_lo w v = push_bit 16 (drop_bit 16 w) OR ucast v"

definition store32_hi :: "64 word \<Rightarrow> 32 word \<Rightarrow> 64 word" where
  "store32_hi w v = take_bit 32 w OR push_bit 32 (ucast v)"

section \<open>The slab header\<close>

text \<open>
  \<open>struct Header\<close> of \<open>percpu_tcmalloc.h\<close>: four \<open>uint16_t\<close> fields in the order
  \<open>current\<close>, \<open>end_copy\<close>, \<open>begin\<close>, \<open>end\<close>, the last two overlaid by the 32-bit
  \<open>lock_update\<close>. The fields \<open>begin\<close> and \<open>end\<close> are named \<open>hdr_begin\<close> and \<open>hdr_end\<close>
  here.
\<close>

record Header =
  current :: "16 word"
  end_copy :: "16 word"
  hdr_begin :: "16 word"
  hdr_end :: "16 word"

text \<open>\<open>absl::bit_cast\<close> between \<open>Header\<close> and \<open>int64_t\<close>, and the union member \<open>lock_update\<close>.\<close>

definition bit_cast_Header :: "64 word \<Rightarrow> Header" where
  "bit_cast_Header w =
     \<lparr>current = load16 w 0, end_copy = load16 w 2,
      hdr_begin = load16 w 4, hdr_end = load16 w 6\<rparr>"

definition bit_cast_int64 :: "Header \<Rightarrow> 64 word" where
  "bit_cast_int64 h =
     ucast (current h) OR push_bit 16 (ucast (end_copy h)) OR
     push_bit 32 (ucast (hdr_begin h)) OR push_bit 48 (ucast (hdr_end h))"

definition lock_update :: "Header \<Rightarrow> 32 word" where
  "lock_update h = ucast (hdr_begin h) OR push_bit 16 (ucast (hdr_end h))"

definition LoadHeader :: "memory \<Rightarrow> ptr \<Rightarrow> Header" where
  "LoadHeader m hdrp = bit_cast_Header (m hdrp)"

definition StoreHeader :: "memory \<Rightarrow> ptr \<Rightarrow> Header \<Rightarrow> memory" where
  "StoreHeader m hdrp hdr = m(hdrp := bit_cast_int64 hdr)"

text \<open>
  \<open>Header::IsLocked\<close>. Its \<open>ASSERT(end != 0 || begin == 0 || begin == 0xffffu)\<close>, like every
  \<open>ASSERT\<close> of the two files, is a debug-build check that is compiled out of a release
  build; the model is of the release build and keeps the asserted condition as the predicate
  \<open>IsLocked_ASSERT\<close>. \<open>CHECK_CONDITION\<close> and \<open>Crash\<close> are always compiled in and are
  error results of the model.
\<close>

definition IsLocked_ASSERT :: "Header \<Rightarrow> bool" where
  "IsLocked_ASSERT h = (hdr_end h \<noteq> 0 \<or> hdr_begin h = 0 \<or> hdr_begin h = 0xffff)"

definition IsLocked :: "Header \<Rightarrow> bool" where
  "IsLocked h = (hdr_end h = 0)"

definition IsInitialized :: "Header \<Rightarrow> bool" where
  "IsInitialized h = (lock_update h \<noteq> 0)"

text \<open>
  \<open>Header::Lock\<close>, applied to the 8-byte word that holds the header: a local header with
  \<open>begin = 0xffff\<close> and \<open>end = 0\<close> is built, and its \<open>lock_update\<close> is stored with one 4-byte
  store over the second half of the word.
\<close>

definition Lock :: "64 word \<Rightarrow> 64 word" where
  "Lock w =
     store32_hi w (lock_update \<lparr>current = 0, end_copy = 0, hdr_begin = 0xffff, hdr_end = 0\<rparr>)"

section \<open>Addressing\<close>

text \<open>
  \<open>CpuMemoryStart\<close> is \<open>&static_cast<char*>(slabs)[cpu << shift]\<close>, a byte address; as the
  start of an array of 8-byte words it is the word offset \<open>cpu * 2 ^ shift div 8\<close> (exact for
  every \<open>shift \<ge> 3\<close>; \<open>InitCpuImpl\<close> crashes on a region too small to hold a header).
  \<open>GetHeader\<close> indexes the header array that starts there.
\<close>

definition CpuMemoryStart :: "64 word \<Rightarrow> nat \<Rightarrow> nat \<Rightarrow> ptr" where
  "CpuMemoryStart slabs shift cpu = (slabs, int (cpu * 2 ^ shift div 8))"

definition GetHeader :: "64 word \<Rightarrow> nat \<Rightarrow> nat \<Rightarrow> nat \<Rightarrow> ptr" where
  "GetHeader slabs shift cpu size_cl =
     ptr_add (CpuMemoryStart slabs shift cpu) (int size_cl)"

definition LockHeader :: "memory \<Rightarrow> 64 word \<Rightarrow> nat \<Rightarrow> nat \<Rightarrow> nat \<Rightarrow> memory" where
  "LockHeader m slabs shift cpu size_cl =
     (let hdrp = GetHeader slabs shift cpu size_cl in m(hdrp := Lock (m hdrp)))"

section \<open>The restartable sequences of the fast path\<close>

text \<open>
  The per-thread word \<open>tcmalloc_slabs\<close>: bit 63 (\<open>kCachedSlabsBit\<close>) says that the rest of
  the word is the start of the region of the CPU the thread runs on.
\<close>

record cached_slabs =
  cached :: bool
  region :: ptr

text \<open>
  Modelled from the spec: the kernel's side of a restartable sequence, which is not code of
  this repository. A sequence either runs to its commit, or the kernel interrupts it
  (preemption, migration or a signal) before the commit. The kernel then rewrites the words
  \<open>tcmalloc_slabs\<close> overlaps, which clears the cached-slabs bit, and resumes the thread at the
  abort trampoline, which jumps back to the start of the sequence (\<open>jmp 3f\<close> in
  \<open>TCMALLOC_RSEQ_PROLOGUE\<close>). The stores a sequence made before its commit stay: only
  \<open>Push\<close> has one, the store of the item.
\<close>

datatype interruption = Uninterrupted | Interrupted_at_start | Interrupted_before_commit

definition kernel_abort :: "cached_slabs \<Rightarrow> cached_slabs" where
  "kernel_abort t = t\<lparr>cached := False\<rparr>"

text \<open>
  One pass of \<open>TcmallocSlab_Internal_Push\<close> (x86-64, the \<open>asm goto\<close> variant) from its start
  label to its commit. \<open>commit\<close> is false for a pass interrupted between the store of the
  item and the committing 2-byte store of \<open>current\<close>.
\<close>

definition Push_pass :: "bool \<Rightarrow> cached_slabs \<Rightarrow> memory \<Rightarrow> nat \<Rightarrow> 64 word \<Rightarrow> bool \<times> memory" where
  "Push_pass commit t m size_cl item =
     (if \<not> cached t then (False, m)
      else
        let scratch = region t;
            hdrp = ptr_add scratch (int size_cl);
            cur = load16 (m hdrp) 0
        in if cur \<ge> load16 (m hdrp) 6 then (False, m)
           else
             let m1 = m(ptr_add scratch (uint cur) := item)
             in if commit then (True, m1(hdrp := store16_lo (m1 hdrp) (cur + 1)))
                else (False, m1))"

definition Push :: "interruption \<Rightarrow> cached_slabs \<Rightarrow> memory \<Rightarrow> nat \<Rightarrow> 64 word
    \<Rightarrow> bool \<times> cached_slabs \<times> memory" where
  "Push i t m size_cl item =
     (case i of
        Uninterrupted \<Rightarrow> (let (r, m') = Push_pass True t m size_cl item in (r, t, m'))
      | Interrupted_at_start \<Rightarrow>
          (let t' = kernel_abort t; (r, m') = Push_pass True t' m size_cl item
           in (r, t', m'))
      | Interrupted_before_commit \<Rightarrow>
          (let (r0, m0) = Push_pass False t m size_cl item;
               t' = kernel_abort t;
               (r, m') = Push_pass True t' m0 size_cl item
           in (r, t', m')))"

text \<open>
  One pass of \<open>TcmallocSlab::Pop\<close> (x86-64, the \<open>asm goto\<close> variant). The result is
  \<open>nullptr\<close>, the word 0, on the underflow path. The load of \<open>next\<close> from the slot below the
  result, which only feeds the prefetch, reads memory and changes nothing.
\<close>

definition Pop_pass :: "cached_slabs \<Rightarrow> memory \<Rightarrow> nat \<Rightarrow> 64 word \<times> memory" where
  "Pop_pass t m size_cl =
     (if \<not> cached t then (0, m)
      else
        let scratch = region t;
            hdrp = ptr_add scratch (int size_cl);
            cur = load16 (m hdrp) 0
        in if cur \<le> load16 (m hdrp) 4 then (0, m)
           else
             let result = m (ptr_add scratch (uint cur - 1))
             in (result, m(hdrp := store16_lo (m hdrp) (cur - 1))))"

definition Pop :: "interruption \<Rightarrow> cached_slabs \<Rightarrow> memory \<Rightarrow> nat
    \<Rightarrow> 64 word \<times> cached_slabs \<times> memory" where
  "Pop i t m size_cl =
     (case i of
        Uninterrupted \<Rightarrow> (let (r, m') = Pop_pass t m size_cl in (r, t, m'))
      | _ \<Rightarrow> (let t' = kernel_abort t; (r, m') = Pop_pass t' m size_cl in (r, t', m')))"



section \<open>The slab object\<close>

text \<open>
  The members of \<open>TcmallocSlab\<close> that the member functions of the two files use, and
  \<open>heap\<close>, the memory its pointers point into. \<open>slabs_and_shift\<close> is the pair that
  \<open>SlabsAndShift::Get\<close> returns.

  Modelled from the spec: \<open>stopped\<close> and \<open>begins\<close>. The member functions of
  \<open>percpu_tcmalloc.cc\<close> use \<open>stopped_\<close> and \<open>begins_\<close>, which the class declaration of
  \<open>percpu_tcmalloc.h\<close> does not declare; they are the spec's per-CPU atomic boolean
  \<open>stopped[cpu]\<close> and per-class atomic \<open>uint16\<close> \<open>begins[size_class]\<close>.
\<close>

record TcmallocSlab =
  num_classes :: nat
  slabs_and_shift :: "64 word \<times> nat"
  stopped :: "nat \<Rightarrow> bool"
  begins :: "nat \<Rightarrow> 16 word"
  heap :: memory

definition Length :: "TcmallocSlab \<Rightarrow> nat \<Rightarrow> nat \<Rightarrow> 64 word" where
  "Length st cpu size_cl =
     (let (slabs, shift) = slabs_and_shift st;
          hdr = LoadHeader (heap st) (GetHeader slabs shift cpu size_cl)
      in if IsLocked hdr then 0 else ucast (current hdr) - ucast (hdr_begin hdr))"

definition Capacity :: "TcmallocSlab \<Rightarrow> nat \<Rightarrow> nat \<Rightarrow> 64 word" where
  "Capacity st cpu size_cl =
     (let (slabs, shift) = slabs_and_shift st;
          hdr = LoadHeader (heap st) (GetHeader slabs shift cpu size_cl)
      in if IsLocked hdr then 0 else ucast (hdr_end hdr) - ucast (hdr_begin hdr))"


section \<open>The slow path\<close>

datatype crash = CHECK_CONDITION_failed | per_CPU_memory_exceeded

text \<open>
  \<open>StopCpu\<close> and \<open>StartCpu\<close>. \<open>FenceCpu\<close> waits for the restartable sequences running on
  \<open>cpu\<close> and changes no state of the object.
\<close>

definition StopCpu :: "TcmallocSlab \<Rightarrow> nat \<Rightarrow> crash + TcmallocSlab" where
  "StopCpu st cpu =
     (if stopped st cpu then Inl CHECK_CONDITION_failed
      else Inr (st\<lparr>stopped := (stopped st)(cpu := True)\<rparr>))"

definition StartCpu :: "TcmallocSlab \<Rightarrow> nat \<Rightarrow> TcmallocSlab" where
  "StartCpu st cpu = st\<lparr>stopped := (stopped st)(cpu := False)\<rparr>"

text \<open>
  The loop of \<open>InitCpuImpl\<close>, from \<open>size_cl\<close> on. \<open>elems\<close> is \<open>elems - cur_slab\<close>, the offset
  of the pointer \<open>elems\<close> in the region, in words. The sentinel stored below a slot array is
  the address of its own slot with the bit \<open>kBeginMark\<close> set.

  Modelled from the spec: \<open>kBeginMark\<close>, which neither file defines, is the low bit.
\<close>

definition kBeginMark :: "64 word" where
  "kBeginMark = 1"

function InitCpuImpl_loop :: "nat \<Rightarrow> (nat \<Rightarrow> 64 word) \<Rightarrow> bool \<Rightarrow> nat \<Rightarrow> ptr \<Rightarrow> nat \<Rightarrow> int \<Rightarrow> bool
    \<Rightarrow> (nat \<Rightarrow> 16 word) \<Rightarrow> memory \<Rightarrow> crash + ((nat \<Rightarrow> 16 word) \<times> memory)" where
  "InitCpuImpl_loop n capacity init_begins shift cur_slab size_cl elems prev_empty bs m =
     (if size_cl < n then
        let cap = capacity size_cl
        in if (ucast (ucast cap :: 16 word) :: 64 word) \<noteq> cap then Inl CHECK_CONDITION_failed
           else
             let m1 = (if \<not> prev_empty \<and> \<not> init_begins
                       then m(ptr_add cur_slab elems := uintptr (ptr_add cur_slab elems) OR kBeginMark)
                       else m);
                 elems1 = (if \<not> prev_empty then elems + 1 else elems);
                 off = (word_of_int elems1 :: 16 word);
                 bs2 = (if init_begins then bs(size_cl := off) else bs);
                 m2 = (if init_begins then m1
                       else StoreHeader m1 (ptr_add cur_slab (int size_cl))
                              \<lparr>current = off, end_copy = 0, hdr_begin = 0, hdr_end = off\<rparr>);
                 elems2 = elems1 + uint cap
             in if elems2 * 8 > 2 ^ shift then Inl per_CPU_memory_exceeded
                else InitCpuImpl_loop n capacity init_begins shift cur_slab (size_cl + 1) elems2
                       (cap = 0) bs2 m2
      else Inr (bs, m))"
  by pat_completeness auto
termination
  by (relation "measure (\<lambda>(n, capacity, init_begins, shift, cur_slab, size_cl, rest). n - size_cl)")
    auto

text \<open>
  \<open>InitCpuImpl\<close>. \<open>Header hdr = {}\<close> zeroes the four fields, and the loop assigns
  \<open>current\<close> and \<open>end\<close> only. \<open>elems\<close> starts at the end of the header array, which is
  8-byte aligned. \<open>1 << shift\<close> is an \<open>int\<close> of the source; the model takes the power, under
  which the first check fails for every shift above 19.
\<close>

definition InitCpuImpl :: "TcmallocSlab \<Rightarrow> 64 word \<Rightarrow> nat \<Rightarrow> nat \<Rightarrow> bool \<Rightarrow> (nat \<Rightarrow> 64 word)
    \<Rightarrow> crash + TcmallocSlab" where
  "InitCpuImpl st slabs shift cpu init_begins capacity =
     (if \<not> (init_begins \<or> stopped st cpu) then Inl CHECK_CONDITION_failed
      else if \<not> ((2::nat) ^ shift \<le> 2 ^ 16 * 8) then Inl CHECK_CONDITION_failed
      else
        case InitCpuImpl_loop (num_classes st) capacity init_begins shift
               (CpuMemoryStart slabs shift cpu) 1 (int (num_classes st)) False (begins st) (heap st) of
          Inl e \<Rightarrow> Inl e
        | Inr (bs, m) \<Rightarrow> Inr (st\<lparr>begins := bs, heap := m\<rparr>))"

text \<open>
  \<open>Init\<close>. \<open>fresh_begins\<close> is the content of the array that \<open>alloc\<close> returned for
  \<open>begins_\<close>. The call of \<open>InitCpuImpl\<close> passes \<open>init_begins = true\<close>.
\<close>

definition Init :: "TcmallocSlab \<Rightarrow> nat \<Rightarrow> (nat \<Rightarrow> 16 word) \<Rightarrow> 64 word \<Rightarrow> (nat \<Rightarrow> 64 word) \<Rightarrow> nat
    \<Rightarrow> crash + TcmallocSlab" where
  "Init st n fresh_begins slabs capacity shift =
     InitCpuImpl
       (st\<lparr>num_classes := n, stopped := (\<lambda>cpu. False), begins := fresh_begins,
           slabs_and_shift := (slabs, shift)\<rparr>)
       slabs shift 0 True capacity"

text \<open>
  Modelled from the spec: \<open>ScopedSlabCpuStop\<close>, which neither file defines, stops the CPU
  when the scope is entered (\<open>StopCpu\<close>) and restarts it when the scope is left
  (\<open>StartCpu\<close>).
\<close>

definition InitCpu :: "TcmallocSlab \<Rightarrow> nat \<Rightarrow> (nat \<Rightarrow> 64 word) \<Rightarrow> crash + TcmallocSlab" where
  "InitCpu st cpu capacity =
     (case StopCpu st cpu of
        Inl e \<Rightarrow> Inl e
      | Inr st1 \<Rightarrow>
          let (slabs, shift) = slabs_and_shift st1
          in (case InitCpuImpl st1 slabs shift cpu False capacity of
                Inl e \<Rightarrow> Inl e
              | Inr st2 \<Rightarrow> Inr (StartCpu st2 cpu)))"

text \<open>
  A call of \<open>drain_handler(cpu, size_class, batch, size, cap)\<close>, with the words the
  handler finds in \<open>batch[0 .. size)\<close> when it is called. The handlers are callbacks of the
  outer allocator; the model records their calls in order and lets them change nothing of
  the slab.
\<close>

record drain_call =
  drain_cpu :: nat
  drain_class :: nat
  drain_batch :: ptr
  drain_size :: "64 word"
  drain_cap :: "64 word"
  drain_items :: "64 word list"

definition batch_items :: "memory \<Rightarrow> ptr \<Rightarrow> nat \<Rightarrow> 64 word list" where
  "batch_items m batch k = map (\<lambda>i. m (ptr_add batch (int i))) [0..<k]"

function DrainCpu_loop :: "nat \<Rightarrow> (nat \<Rightarrow> 16 word) \<Rightarrow> 64 word \<Rightarrow> nat \<Rightarrow> nat \<Rightarrow> nat \<Rightarrow> memory
    \<Rightarrow> drain_call list \<times> memory" where
  "DrainCpu_loop n bs slabs shift cpu size_cl m =
     (if size_cl < n then
        let begin = bs size_cl;
            hdrp = GetHeader slabs shift cpu size_cl;
            hdr = LoadHeader m hdrp
        in if current hdr = 0 then DrainCpu_loop n bs slabs shift cpu (size_cl + 1) m
           else
             let size = (ucast (current hdr) - ucast begin :: 64 word);
                 cap = (ucast (hdr_end hdr) - ucast begin :: 64 word);
                 batch = ptr_add (CpuMemoryStart slabs shift cpu) (uint begin);
                 call = \<lparr>drain_cpu = cpu, drain_class = size_cl, drain_batch = batch,
                         drain_size = size, drain_cap = cap,
                         drain_items = batch_items m batch (unat size)\<rparr>;
                 m' = StoreHeader m hdrp (hdr\<lparr>current := begin, hdr_end := begin\<rparr>);
                 (calls, m'') = DrainCpu_loop n bs slabs shift cpu (size_cl + 1) m'
             in (call # calls, m'')
      else ([], m))"
  by pat_completeness auto
termination
  by (relation "measure (\<lambda>(n, bs, slabs, shift, cpu, size_cl, m). n - size_cl)") auto

definition DrainCpu :: "TcmallocSlab \<Rightarrow> 64 word \<Rightarrow> nat \<Rightarrow> nat \<Rightarrow> drain_call list \<times> TcmallocSlab" where
  "DrainCpu st slabs shift cpu =
     (let (calls, m) = DrainCpu_loop (num_classes st) (begins st) slabs shift cpu 1 (heap st)
      in (calls, st\<lparr>heap := m\<rparr>))"

definition Drain :: "TcmallocSlab \<Rightarrow> nat \<Rightarrow> crash + (drain_call list \<times> TcmallocSlab)" where
  "Drain st cpu =
     (case StopCpu st cpu of
        Inl e \<Rightarrow> Inl e
      | Inr st1 \<Rightarrow>
          let (slabs, shift) = slabs_and_shift st1;
              (calls, st2) = DrainCpu st1 slabs shift cpu
          in Inr (calls, StartCpu st2 cpu))"

text \<open>
  For stating what \<open>Drain\<close> does: the five arguments of a recorded call; the arguments
  that the loop of \<open>DrainCpu\<close> computes for size class \<open>s\<close> from the memory \<open>m\<close>; and the
  test of that loop, \<open>hdr.current != 0\<close>.
\<close>

definition drain_args :: "drain_call \<Rightarrow> nat \<times> nat \<times> ptr \<times> 64 word \<times> 64 word" where
  "drain_args c = (drain_cpu c, drain_class c, drain_batch c, drain_size c, drain_cap c)"

definition drain_handler_args :: "(nat \<Rightarrow> 16 word) \<Rightarrow> memory \<Rightarrow> 64 word \<Rightarrow> nat \<Rightarrow> nat \<Rightarrow> nat
    \<Rightarrow> nat \<times> nat \<times> ptr \<times> 64 word \<times> 64 word" where
  "drain_handler_args bs m slabs shift cpu s =
     (let hdr = LoadHeader m (GetHeader slabs shift cpu s)
      in (cpu, s, ptr_add (CpuMemoryStart slabs shift cpu) (uint (bs s)),
          ucast (current hdr) - ucast (bs s), ucast (hdr_end hdr) - ucast (bs s)))"

definition drained :: "memory \<Rightarrow> 64 word \<Rightarrow> nat \<Rightarrow> nat \<Rightarrow> nat \<Rightarrow> bool" where
  "drained m slabs shift cpu s = (current (LoadHeader m (GetHeader slabs shift cpu s)) \<noteq> 0)"

text \<open>\<open>GrowOtherCache\<close> and \<open>ShrinkOtherCache\<close>; both require \<open>stopped_[cpu]\<close> (an \<open>ASSERT\<close>).\<close>

definition GrowOtherCache :: "TcmallocSlab \<Rightarrow> nat \<Rightarrow> nat \<Rightarrow> 64 word \<Rightarrow> (nat \<Rightarrow> 64 word)
    \<Rightarrow> 64 word \<times> TcmallocSlab" where
  "GrowOtherCache st cpu size_cl len max_capacity =
     (let (slabs, shift) = slabs_and_shift st;
          max_cap = max_capacity shift;
          hdrp = GetHeader slabs shift cpu size_cl;
          hdr = LoadHeader (heap st) hdrp;
          begin = begins st size_cl;
          to_grow = (min (ucast len) (ucast (max_cap - (ucast (hdr_end hdr) - ucast begin)))
                     :: 16 word);
          hdr' = hdr\<lparr>hdr_end := hdr_end hdr + to_grow\<rparr>
      in (ucast to_grow, st\<lparr>heap := StoreHeader (heap st) hdrp hdr'\<rparr>))"

text \<open>A call of \<open>shrink_handler(size_class, batch, size)\<close>, with the words in the batch.\<close>

record shrink_call =
  shrink_class :: nat
  shrink_batch :: ptr
  shrink_size :: "64 word"
  shrink_items :: "64 word list"

definition ShrinkOtherCache :: "TcmallocSlab \<Rightarrow> nat \<Rightarrow> nat \<Rightarrow> 64 word
    \<Rightarrow> 64 word \<times> shrink_call list \<times> TcmallocSlab" where
  "ShrinkOtherCache st cpu size_cl len =
     (let (slabs, shift) = slabs_and_shift st;
          hdrp = GetHeader slabs shift cpu size_cl;
          hdr = LoadHeader (heap st) hdrp;
          unused = hdr_end hdr - current hdr;
          begin = begins st size_cl;
          (calls, hdr1) =
            (if ucast unused < len \<and> current hdr \<noteq> begin then
               let pop = (min (ucast (len - ucast unused)) (current hdr - begin) :: 16 word);
                   batch = ptr_add (CpuMemoryStart slabs shift cpu) (uint (current hdr) - uint pop)
               in ([\<lparr>shrink_class = size_cl, shrink_batch = batch, shrink_size = ucast pop,
                      shrink_items = batch_items (heap st) batch (unat pop)\<rparr>],
                   hdr\<lparr>current := current hdr - pop\<rparr>)
             else ([], hdr));
          to_shrink = (min (ucast len) (hdr_end hdr1 - current hdr1) :: 16 word);
          hdr2 = hdr1\<lparr>hdr_end := hdr_end hdr1 - to_shrink\<rparr>
      in (ucast to_shrink, calls, st\<lparr>heap := StoreHeader (heap st) hdrp hdr2\<rparr>))"

subsection \<open>Resizing the slab bank\<close>

text \<open>
  \<open>ResizeSlabs\<close> has two effects that an observer can order: the calls of
  \<open>drain_handler\<close> and the store of \<open>{new_slabs, new_shift}\<close> into \<open>slabs_and_shift_\<close>.
  A call of the handler is recorded with the pair that \<open>slabs_and_shift_\<close> holds in the
  state the call is made in, which is what \<open>GetSlabsAndShift\<close> would return to the handler.
\<close>

record delivery =
  visible :: "64 word \<times> nat"
  delivered :: drain_call

record ResizeSlabsInfo =
  old_slabs :: "64 word"
  old_slabs_size :: "64 word"

definition GetSlabsAllocSize :: "nat \<Rightarrow> nat \<Rightarrow> 64 word" where
  "GetSlabsAllocSize shift num_cpus = push_bit shift (of_nat num_cpus)"

text \<open>
  Phase 1: every CPU must be running (\<open>CHECK_CONDITION\<close>) and is stopped; the headers of a
  populated CPU are laid out in the new bank, \<open>begins_\<close> left as it is
  (\<open>init_begins = false\<close>). \<open>FenceAllCpus\<close>, which follows, changes nothing in this state.
\<close>

function ResizeSlabs_stop :: "nat \<Rightarrow> (nat \<Rightarrow> bool) \<Rightarrow> (nat \<Rightarrow> 64 word) \<Rightarrow> 64 word \<Rightarrow> nat \<Rightarrow> nat
    \<Rightarrow> TcmallocSlab \<Rightarrow> crash + TcmallocSlab" where
  "ResizeSlabs_stop num_cpus populated capacity new_slabs new_shift cpu st =
     (if cpu < num_cpus then
        if stopped st cpu then Inl CHECK_CONDITION_failed
        else
          let st1 = st\<lparr>stopped := (stopped st)(cpu := True)\<rparr>
          in if populated cpu then
               (case InitCpuImpl st1 new_slabs new_shift cpu False capacity of
                  Inl e \<Rightarrow> Inl e
                | Inr st2 \<Rightarrow>
                    ResizeSlabs_stop num_cpus populated capacity new_slabs new_shift (cpu + 1) st2)
             else ResizeSlabs_stop num_cpus populated capacity new_slabs new_shift (cpu + 1) st1
      else Inr st)"
  by pat_completeness auto
termination
  by (relation "measure (\<lambda>(num_cpus, populated, capacity, new_slabs, new_shift, cpu, st). num_cpus - cpu)")
    auto

text \<open>
  Phase 2: \<open>DrainCpu\<close> on the old bank, for the populated CPUs in increasing order.
  \<open>DrainCpu\<close> stores to headers only, so the handler calls of one \<open>DrainCpu\<close> all see the
  \<open>slabs_and_shift_\<close> of the state it starts in.
\<close>

function ResizeSlabs_drain :: "nat \<Rightarrow> (nat \<Rightarrow> bool) \<Rightarrow> 64 word \<Rightarrow> nat \<Rightarrow> nat \<Rightarrow> TcmallocSlab
    \<Rightarrow> delivery list \<times> TcmallocSlab" where
  "ResizeSlabs_drain num_cpus populated slabs shift cpu st =
     (if cpu < num_cpus then
        if \<not> populated cpu then ResizeSlabs_drain num_cpus populated slabs shift (cpu + 1) st
        else
          let (calls, st1) = DrainCpu st slabs shift cpu;
              (more_calls, st2) = ResizeSlabs_drain num_cpus populated slabs shift (cpu + 1) st1
          in (map (\<lambda>c. \<lparr>visible = slabs_and_shift st, delivered = c\<rparr>) calls @ more_calls, st2)
      else ([], st))"
  by pat_completeness auto
termination
  by (relation "measure (\<lambda>(num_cpus, populated, slabs, shift, cpu, st). num_cpus - cpu)") auto

text \<open>Phase 4: every CPU is restarted.\<close>

function ResizeSlabs_start :: "nat \<Rightarrow> nat \<Rightarrow> TcmallocSlab \<Rightarrow> TcmallocSlab" where
  "ResizeSlabs_start num_cpus cpu st =
     (if cpu < num_cpus
      then ResizeSlabs_start num_cpus (cpu + 1) (st\<lparr>stopped := (stopped st)(cpu := False)\<rparr>)
      else st)"
  by pat_completeness auto
termination
  by (relation "measure (\<lambda>(num_cpus, cpu, st). num_cpus - cpu)") auto

text \<open>
  The four phases. Phase 3 stores the new pair and lets \<open>InitCpuImpl\<close> compute \<open>begins_\<close> for
  the new shift (\<open>init_begins = true\<close>). The \<open>ASSERT(new_shift != old_shift)\<close> of the source
  is a precondition. The result is the handler calls in the order they were made, the
  \<open>ResizeSlabsInfo\<close> and the object after the call.
\<close>

definition ResizeSlabs :: "TcmallocSlab \<Rightarrow> nat \<Rightarrow> nat \<Rightarrow> 64 word \<Rightarrow> (nat \<Rightarrow> 64 word) \<Rightarrow> (nat \<Rightarrow> bool)
    \<Rightarrow> crash + (delivery list \<times> ResizeSlabsInfo \<times> TcmallocSlab)" where
  "ResizeSlabs st num_cpus new_shift new_slabs capacity populated =
     (let (slabs, shift) = slabs_and_shift st
      in case ResizeSlabs_stop num_cpus populated capacity new_slabs new_shift 0 st of
           Inl e \<Rightarrow> Inl e
         | Inr st1 \<Rightarrow>
             let (calls, st2) = ResizeSlabs_drain num_cpus populated slabs shift 0 st1;
                 st3 = st2\<lparr>slabs_and_shift := (new_slabs, new_shift)\<rparr>
             in (case InitCpuImpl st3 new_slabs new_shift 0 True capacity of
                   Inl e \<Rightarrow> Inl e
                 | Inr st4 \<Rightarrow>
                     Inr (calls,
                          \<lparr>old_slabs = slabs, old_slabs_size = GetSlabsAllocSize shift num_cpus\<rparr>,
                          ResizeSlabs_start num_cpus 0 st4)))"

text \<open>
  The objects a slab holds: the words of the slots \<open>[begins_[s], current)\<close> of a header, none
  when \<open>current\<close> is not above \<open>begins_[s]\<close>; and those of a whole bank, by CPU and by size
  class.
\<close>

definition slab_items :: "(nat \<Rightarrow> 16 word) \<Rightarrow> memory \<Rightarrow> 64 word \<Rightarrow> nat \<Rightarrow> nat \<Rightarrow> nat \<Rightarrow> 64 word list" where
  "slab_items bs m slabs shift cpu s =
     batch_items m (ptr_add (CpuMemoryStart slabs shift cpu) (uint (bs s)))
       (unat (current (LoadHeader m (GetHeader slabs shift cpu s))) - unat (bs s))"

definition bank_items :: "TcmallocSlab \<Rightarrow> 64 word \<Rightarrow> nat \<Rightarrow> nat \<Rightarrow> 64 word list" where
  "bank_items st slabs shift num_cpus =
     concat (map (\<lambda>cpu. concat (map (slab_items (begins st) (heap st) slabs shift cpu)
       [1..<num_classes st])) [0..<num_cpus])"

section \<open>Example states\<close>

text \<open>
  A region at address \<open>0x10000\<close> whose header of size class 1 has the slot array
  \<open>[4, 6)\<close> with one object, \<open>0xAA\<close>, in it; a thread that has this region cached; and a
  slab object whose header of size class 1 on CPU 0 is locked.
\<close>

definition ex_mem :: memory where
  "ex_mem = (\<lambda>p. 0)((0x10000, 1) :=
      bit_cast_int64 \<lparr>current = 5, end_copy = 6, hdr_begin = 4, hdr_end = 6\<rparr>,
      (0x10000, 4) := 0xAA)"

definition ex_thread :: cached_slabs where
  "ex_thread = \<lparr>cached = True, region = (0x10000, 0)\<rparr>"

definition ex_slab :: TcmallocSlab where
  "ex_slab = \<lparr>num_classes = 3, slabs_and_shift = (0x10000, 18), stopped = (\<lambda>cpu. False),
     begins = (\<lambda>c. 0)(1 := 4, 2 := 7),
     heap = (\<lambda>p. 0)((0x10000, 1) :=
       bit_cast_int64 \<lparr>current = 5, end_copy = 6, hdr_begin = 0xffff, hdr_end = 0\<rparr>)\<rparr>"

text \<open>
  A slab object over the memory \<open>ex_mem\<close>, with CPU 0 stopped, and two \<open>max_capacity\<close>
  callbacks.
\<close>

definition ex_active :: TcmallocSlab where
  "ex_active = \<lparr>num_classes = 3, slabs_and_shift = (0x10000, 18), stopped = (\<lambda>cpu. cpu = 0),
     begins = (\<lambda>c. 0)(1 := 4, 2 := 7), heap = ex_mem\<rparr>"

definition ex_max_capacity :: "nat \<Rightarrow> 64 word" where
  "ex_max_capacity shift = 4"

text \<open>
  The scenario of the spec: 3 size classes with \<open>capacity(1) = 2\<close> and \<open>capacity(2) = 3\<close>, a
  shift of 18 and a zeroed slab bank at \<open>0x10000\<close>. \<open>ex_zero\<close> is the object before
  \<open>Init\<close>, \<open>ex_Init\<close> the object after \<open>Init\<close>, \<open>ex_InitCpu\<close> the object after
  \<open>InitCpu(0)\<close>, and \<open>ex_InitCpu_stopped\<close> the latter with CPU 0 stopped.
\<close>

definition ex_capacity :: "nat \<Rightarrow> 64 word" where
  "ex_capacity c = (if c = 1 then 2 else if c = 2 then 3 else 0)"

definition ex_zero :: TcmallocSlab where
  "ex_zero = \<lparr>num_classes = 0, slabs_and_shift = (0, 0), stopped = (\<lambda>cpu. False),
     begins = (\<lambda>c. 0), heap = (\<lambda>p. 0)\<rparr>"

definition ex_Init :: TcmallocSlab where
  "ex_Init = \<lparr>num_classes = 3, slabs_and_shift = (0x10000, 18), stopped = (\<lambda>cpu. False),
     begins = (\<lambda>c. 0)(1 := 4, 2 := 7), heap = (\<lambda>p. 0)\<rparr>"

definition ex_InitCpu :: TcmallocSlab where
  "ex_InitCpu = ex_Init\<lparr>heap := (\<lambda>p. 0)
     ((0x10000, 3) := 0x10019,
      (0x10000, 1) := bit_cast_int64 \<lparr>current = 4, end_copy = 0, hdr_begin = 0, hdr_end = 4\<rparr>,
      (0x10000, 6) := 0x10031,
      (0x10000, 2) := bit_cast_int64 \<lparr>current = 7, end_copy = 0, hdr_begin = 0, hdr_end = 7\<rparr>)\<rparr>"

definition ex_fresh_begins :: "nat \<Rightarrow> 16 word" where
  "ex_fresh_begins c = 0"

definition ex_InitCpu_stopped :: TcmallocSlab where
  "ex_InitCpu_stopped = ex_InitCpu\<lparr>stopped := (\<lambda>cpu. cpu = 0)\<rparr>"

text \<open>The slab object over \<open>ex_mem\<close> with no CPU stopped.\<close>

definition ex_running :: TcmallocSlab where
  "ex_running = \<lparr>num_classes = 3, slabs_and_shift = (0x10000, 18), stopped = (\<lambda>cpu. False),
     begins = (\<lambda>c. 0)(1 := 4, 2 := 7), heap = ex_mem\<rparr>"

text \<open>The \<open>populated\<close> callback of the scenario: only CPU 0 has been populated.\<close>

definition ex_populated :: "nat \<Rightarrow> bool" where
  "ex_populated cpu = (cpu = 0)"


section \<open>Header words\<close>

lemma bit_cast_Header_int64: "bit_cast_Header (bit_cast_int64 h) = h"
proof -
  have "load16 (bit_cast_int64 h) 0 = current h"
    unfolding bit_cast_int64_def load16_def
    by (rule bit_word_eqI) (auto simp: bit_simps dest: bit_imp_le_length)
  moreover have "load16 (bit_cast_int64 h) 2 = end_copy h"
    unfolding bit_cast_int64_def load16_def
    by (rule bit_word_eqI) (auto simp: bit_simps dest: bit_imp_le_length)
  moreover have "load16 (bit_cast_int64 h) 4 = hdr_begin h"
    unfolding bit_cast_int64_def load16_def
    by (rule bit_word_eqI) (auto simp: bit_simps dest: bit_imp_le_length)
  moreover have "load16 (bit_cast_int64 h) 6 = hdr_end h"
    unfolding bit_cast_int64_def load16_def
    by (rule bit_word_eqI) (auto simp: bit_simps dest: bit_imp_le_length)
  ultimately show ?thesis
    by (simp add: bit_cast_Header_def)
qed

lemma LoadHeader_StoreHeader: "LoadHeader (StoreHeader m p h) p = h"
  by (simp add: LoadHeader_def StoreHeader_def bit_cast_Header_int64)

lemma LoadHeader_StoreHeader_other: "q \<noteq> p \<Longrightarrow> LoadHeader (StoreHeader m p h) q = LoadHeader m q"
  by (simp add: LoadHeader_def StoreHeader_def)

lemma load16_store16_lo:
  "load16 (store16_lo w v) 0 = v"
  "load16 (store16_lo w v) 2 = load16 w 2"
  "load16 (store16_lo w v) 4 = load16 w 4"
  "load16 (store16_lo w v) 6 = load16 w 6"
  unfolding load16_def store16_lo_def
  by (rule bit_word_eqI; auto simp: bit_simps dest: bit_imp_le_length)+

lemma store16_lo_twice: "store16_lo (store16_lo w a) b = store16_lo w b"
  unfolding store16_lo_def
  by (rule bit_word_eqI) (auto simp: bit_simps dest: bit_imp_le_length)

lemma store16_lo_same: "store16_lo w (load16 w 0) = w"
  unfolding store16_lo_def load16_def
  by (rule bit_word_eqI) (auto simp: bit_simps dest: bit_imp_le_length)

lemma load16_store32_hi:
  "load16 (store32_hi w (lock_update h)) 0 = load16 w 0"
  "load16 (store32_hi w (lock_update h)) 2 = load16 w 2"
  "load16 (store32_hi w (lock_update h)) 4 = hdr_begin h"
  "load16 (store32_hi w (lock_update h)) 6 = hdr_end h"
  unfolding load16_def store32_hi_def lock_update_def
  by (rule bit_word_eqI; auto simp: bit_simps dest: bit_imp_le_length)+

lemma bit_cast_Header_Lock:
  "bit_cast_Header (Lock w) = (bit_cast_Header w)\<lparr>hdr_begin := 0xffff, hdr_end := 0\<rparr>"
  by (simp add: bit_cast_Header_def Lock_def load16_store32_hi)


lemma le_ffff: "(x :: 16 word) \<le> 0xffff"
proof -
  have "(0xffff :: 16 word) = - 1" by simp
  then show ?thesis by (simp only: word_n1_ge)
qed

lemma bit_cast_int64_Header: "bit_cast_int64 (bit_cast_Header w) = w"
  unfolding bit_cast_int64_def bit_cast_Header_def load16_def
proof (simp, rule bit_word_eqI)
  fix n :: nat
  assume "n < LENGTH(64)"
  then have "n < 64" by simp
  then consider "n < 16" | "16 \<le> n" "n < 32" | "32 \<le> n" "n < 48" | "48 \<le> n" "n < 64"
    by linarith
  then show "bit (ucast (ucast w :: 16 word) OR push_bit 16 (ucast (ucast (drop_bit 16 w) :: 16 word)) OR
          push_bit 32 (ucast (ucast (drop_bit 32 w) :: 16 word)) OR
          push_bit 48 (ucast (ucast (drop_bit 48 w) :: 16 word)) :: 64 word) n = bit w n"
    by cases (auto simp: bit_simps)
qed

lemma bit_cast_Header_store16_lo:
  "bit_cast_Header (store16_lo w v) = (bit_cast_Header w)\<lparr>current := v\<rparr>"
  by (simp add: bit_cast_Header_def load16_store16_lo)

lemma store16_lo_StoreHeader:
  "m(p := store16_lo (m p) v) = StoreHeader m p ((LoadHeader m p)\<lparr>current := v\<rparr>)"
proof -
  have "store16_lo (m p) v = bit_cast_int64 (bit_cast_Header (store16_lo (m p) v))"
    by (simp only: bit_cast_int64_Header)
  then show ?thesis
    by (simp add: StoreHeader_def LoadHeader_def bit_cast_Header_store16_lo)
qed

lemma Pop_hit:
  assumes "cached t" and "hdr = LoadHeader m (ptr_add (region t) (int s))"
    and "hdr_begin hdr < current hdr"
  shows "Pop Uninterrupted t m s =
           (m (ptr_add (region t) (uint (current hdr) - 1)), t,
            StoreHeader m (ptr_add (region t) (int s)) (hdr\<lparr>current := current hdr - 1\<rparr>))"
proof -
  have "\<not> load16 (m (ptr_add (region t) (int s))) 0 \<le> load16 (m (ptr_add (region t) (int s))) 4"
    using assms by (simp add: LoadHeader_def bit_cast_Header_def not_le)
  then show ?thesis
    using assms(1,2)
    by (simp add: Pop_def Pop_pass_def Let_def store16_lo_StoreHeader)
      (simp add: LoadHeader_def bit_cast_Header_def)
qed

lemma Pop_miss:
  assumes "hdr = LoadHeader m (ptr_add (region t) (int s))"
    and "current hdr \<le> hdr_begin hdr"
  shows "Pop Uninterrupted t m s = (0, t, m)"
  using assms by (simp add: Pop_def Pop_pass_def Let_def LoadHeader_def bit_cast_Header_def)

lemma Pop_uncached: "\<not> cached t \<Longrightarrow> Pop i t m s = (0, (if i = Uninterrupted then t else kernel_abort t), m)"
  by (cases i) (simp_all add: Pop_def Pop_pass_def kernel_abort_def)

lemma Pop_interrupted: "i \<noteq> Uninterrupted \<Longrightarrow> Pop i t m s = (0, kernel_abort t, m)"
  by (cases i) (simp_all add: Pop_def Pop_pass_def kernel_abort_def)

lemma Push_hit:
  assumes "cached t" and "hdr = LoadHeader m (ptr_add (region t) (int s))"
    and "current hdr < hdr_end hdr" and "int s \<noteq> uint (current hdr)"
  shows "Push Uninterrupted t m s item =
           (True, t, StoreHeader (m(ptr_add (region t) (uint (current hdr)) := item))
                       (ptr_add (region t) (int s)) (hdr\<lparr>current := current hdr + 1\<rparr>))"
proof -
  let ?hp = "ptr_add (region t) (int s)"
  let ?sp = "ptr_add (region t) (uint (current hdr))"
  have ne: "?sp \<noteq> ?hp"
    using assms(4) by (simp add: ptr_add_def)
  have c: "load16 (m ?hp) 0 = current hdr" and e: "load16 (m ?hp) 6 = hdr_end hdr"
    using assms(2) by (simp_all add: LoadHeader_def bit_cast_Header_def)
  have nge: "\<not> current hdr \<ge> hdr_end hdr"
    using assms(3) by (simp add: not_le)
  let ?m1 = "m(?sp := item)"
  have l: "LoadHeader ?m1 ?hp = hdr"
    using ne assms(2) by (simp add: LoadHeader_def)
  have "?m1(?hp := store16_lo (?m1 ?hp) (current hdr + 1))
      = StoreHeader ?m1 ?hp (hdr\<lparr>current := current hdr + 1\<rparr>)"
    by (simp only: store16_lo_StoreHeader l)
  then show ?thesis
    using assms(1) nge
    by (simp add: Push_def Push_pass_def Let_def c e)
qed

lemma Push_locked:
  assumes "hdr_end (LoadHeader m (ptr_add (region t) (int s))) = 0"
  shows "Push i t m s item = (False, if i = Uninterrupted then t else kernel_abort t, m)"
  using assms
  by (cases i) (auto simp: Push_def Push_pass_def Let_def LoadHeader_def bit_cast_Header_def kernel_abort_def)

lemma Pop_locked:
  assumes "hdr_begin (LoadHeader m (ptr_add (region t) (int s))) = 0xffff"
  shows "Pop i t m s = (0, if i = Uninterrupted then t else kernel_abort t, m)"
  using assms le_ffff[of "load16 (m (ptr_add (region t) (int s))) 0"]
  by (cases i) (auto simp: Pop_def Pop_pass_def Let_def LoadHeader_def bit_cast_Header_def kernel_abort_def)

lemma word16_less_succ:
  fixes a b :: "16 word"
  assumes "a < b"
  shows "a < a + 1"
  using assms by unat_arith

lemma word16_uint_succ:
  fixes a b :: "16 word"
  assumes "a < b"
  shows "uint (a + 1) = uint a + 1"
  using assms by uint_arith

lemma word16_le_less_succ:
  fixes a b c :: "16 word"
  assumes "c \<le> a" "a < b"
  shows "c < a + 1"
  using assms by unat_arith

section \<open>The fast path\<close>

text \<open>
  Claim C1. On a thread that has its region cached, for a nonzero size class whose header
  is active (\<open>begin \<le> current \<le> end\<close>, the header array lying below the slot array):
  a \<open>Push\<close> with room succeeds, and the \<open>Pop\<close> after it returns the pushed item and
  leaves the header as it was before the \<open>Push\<close>; a \<open>Pop\<close> from a non-empty cache returns
  the word in the top slot \<open>current - 1\<close> and stores \<open>current - 1\<close>; \<open>Pop\<close> returns
  \<open>nullptr\<close> and changes no memory when the cache is empty, when the cached-slabs bit is
  clear, and when the sequence is interrupted before its commit.
\<close>

theorem Pop_returns_last_pushed:
  assumes nz: "size_cl \<noteq> 0" and c: "cached t"
    and hp: "hdrp = ptr_add (region t) (int size_cl)" and h: "hdr = LoadHeader m hdrp"
    and below: "int size_cl < uint (hdr_begin hdr)"
    and act: "hdr_begin hdr \<le> current hdr" "current hdr \<le> hdr_end hdr"
  shows "(current hdr < hdr_end hdr \<longrightarrow>
            (\<exists>m1. Push Uninterrupted t m size_cl item = (True, t, m1) \<and>
                  LoadHeader m1 hdrp = hdr\<lparr>current := current hdr + 1\<rparr> \<and>
                  Pop Uninterrupted t m1 size_cl =
                    (item, t, m(ptr_add (region t) (uint (current hdr)) := item)))) \<and>
         (hdr_begin hdr < current hdr \<longrightarrow>
            Pop Uninterrupted t m size_cl =
              (m (ptr_add (region t) (uint (current hdr) - 1)), t,
               StoreHeader m hdrp (hdr\<lparr>current := current hdr - 1\<rparr>))) \<and>
         (current hdr = hdr_begin hdr \<longrightarrow> Pop Uninterrupted t m size_cl = (0, t, m)) \<and>
         Pop i (t\<lparr>cached := False\<rparr>) m size_cl = (0, t\<lparr>cached := False\<rparr>, m) \<and>
         (i \<noteq> Uninterrupted \<longrightarrow> Pop i t m size_cl = (0, kernel_abort t, m))"
proof (intro conjI impI)
  assume room: "current hdr < hdr_end hdr"
  let ?slot = "ptr_add (region t) (uint (current hdr))"
  let ?m0 = "m(?slot := item)"
  let ?h1 = "hdr\<lparr>current := current hdr + 1\<rparr>"
  let ?m1 = "StoreHeader ?m0 hdrp ?h1"
  have "uint (hdr_begin hdr) \<le> uint (current hdr)"
    using act(1) by (simp add: word_le_def)
  then have ne: "int size_cl \<noteq> uint (current hdr)"
    using below by simp
  then have slot_ne: "?slot \<noteq> hdrp"
    by (simp add: hp ptr_add_def)
  have push: "Push Uninterrupted t m size_cl item = (True, t, ?m1)"
    using Push_hit [OF c h [unfolded hp] room ne] by (simp add: hp)
  have load1: "LoadHeader ?m1 hdrp = ?h1"
    by (rule LoadHeader_StoreHeader)
  have lt: "hdr_begin ?h1 < current ?h1"
    using word16_le_less_succ [OF act(1) room] by simp
  have u: "uint (current hdr + 1) - 1 = uint (current hdr)"
    using word16_uint_succ [OF room] by simp
  have restored: "StoreHeader ?m1 hdrp hdr = ?m0"
  proof -
    have "bit_cast_int64 hdr = m hdrp"
      by (simp add: h LoadHeader_def bit_cast_int64_Header)
    then show ?thesis
      using slot_ne by (auto simp: StoreHeader_def fun_eq_iff)
  qed
  have "Pop Uninterrupted t ?m1 size_cl =
          (?m1 (ptr_add (region t) (uint (current ?h1) - 1)), t,
           StoreHeader ?m1 (ptr_add (region t) (int size_cl)) (?h1\<lparr>current := current ?h1 - 1\<rparr>))"
    using load1 lt by (intro Pop_hit [OF c]) (simp_all add: hp)
  moreover have "?m1 (ptr_add (region t) (uint (current ?h1) - 1)) = item"
    using slot_ne by (simp add: u StoreHeader_def)
  moreover have "?h1\<lparr>current := current ?h1 - 1\<rparr> = hdr"
    by simp
  ultimately have "Pop Uninterrupted t ?m1 size_cl = (item, t, ?m0)"
    using restored by (simp add: hp)
  with push load1
  show "\<exists>m1. Push Uninterrupted t m size_cl item = (True, t, m1) \<and>
             LoadHeader m1 hdrp = hdr\<lparr>current := current hdr + 1\<rparr> \<and>
             Pop Uninterrupted t m1 size_cl = (item, t, ?m0)"
    by blast
next
  assume "hdr_begin hdr < current hdr"
  then show "Pop Uninterrupted t m size_cl =
      (m (ptr_add (region t) (uint (current hdr) - 1)), t,
       StoreHeader m hdrp (hdr\<lparr>current := current hdr - 1\<rparr>))"
    using Pop_hit [OF c h [unfolded hp]] by (simp add: hp)
next
  assume "current hdr = hdr_begin hdr"
  then show "Pop Uninterrupted t m size_cl = (0, t, m)"
    using Pop_miss [OF h [unfolded hp]] by simp
next
  show "Pop i (t\<lparr>cached := False\<rparr>) m size_cl = (0, t\<lparr>cached := False\<rparr>, m)"
    using Pop_uncached [of "t\<lparr>cached := False\<rparr>" i m size_cl] by (simp add: kernel_abort_def)
next
  assume "i \<noteq> Uninterrupted"
  then show "Pop i t m size_cl = (0, kernel_abort t, m)"
    by (rule Pop_interrupted)
qed

lemma ex_header: "LoadHeader ex_mem (ptr_add (region ex_thread) 1) = \<lparr>current = 5, end_copy = 6, hdr_begin = 4, hdr_end = 6\<rparr>"
  by (simp add: ex_mem_def ex_thread_def LoadHeader_def ptr_add_def bit_cast_Header_int64)

theorem Pop_returns_last_pushed_witness:
  "fst (Pop Uninterrupted ex_thread
         (snd (snd (Push Uninterrupted ex_thread ex_mem 1 0xBB))) 1) = 0xBB \<and>
   Pop Uninterrupted ex_thread ex_mem 1 =
     (0xAA, ex_thread, StoreHeader ex_mem (0x10000, 1) \<lparr>current = 4, end_copy = 6, hdr_begin = 4, hdr_end = 6\<rparr>) \<and>
   Pop Interrupted_at_start ex_thread ex_mem 1 = (0, kernel_abort ex_thread, ex_mem)"
  using Pop_returns_last_pushed [where size_cl = 1 and t = ex_thread and hdrp = "(0x10000, 1)"
      and hdr = "\<lparr>current = 5, end_copy = 6, hdr_begin = 4, hdr_end = 6\<rparr>" and m = ex_mem
      and i = Interrupted_at_start and item = "0xBB"]
    ex_header
  by (auto simp: ex_thread_def ptr_add_def ex_mem_def)

section \<open>Locked headers\<close>

text \<open>
  Claim C9. \<open>LockHeader\<close> is one 4-byte store of \<open>0x0000ffff\<close> over the second half of the
  header word: it sets \<open>begin = 0xffff\<close> and \<open>end = 0\<close> and leaves \<open>current\<close> and
  \<open>end_copy\<close> as they were. With the header locked, every \<open>Push\<close> and every \<open>Pop\<close> of a
  thread on that CPU for that size class fails, interrupted or not, and changes no memory.
\<close>

theorem Lock_sets_begin_and_end_only:
  assumes hp: "hdrp = GetHeader slabs shift cpu size_cl"
    and m': "m' = LockHeader m slabs shift cpu size_cl"
    and t: "region t = CpuMemoryStart slabs shift cpu"
  shows "m' = m(hdrp := store32_hi (m hdrp) 0xffff) \<and>
         LoadHeader m' hdrp = (LoadHeader m hdrp)\<lparr>hdr_begin := 0xffff, hdr_end := 0\<rparr> \<and>
         Push i t m' size_cl item = (False, if i = Uninterrupted then t else kernel_abort t, m') \<and>
         Pop i t m' size_cl = (0, if i = Uninterrupted then t else kernel_abort t, m')"
proof -
  have lu: "lock_update \<lparr>current = 0, end_copy = 0, hdr_begin = 0xffff, hdr_end = 0\<rparr> = 0xffff"
    by (simp add: lock_update_def)
  have store: "m' = m(hdrp := store32_hi (m hdrp) 0xffff)"
    by (simp add: m' hp LockHeader_def Let_def Lock_def lu)
  have load: "LoadHeader m' hdrp = (LoadHeader m hdrp)\<lparr>hdr_begin := 0xffff, hdr_end := 0\<rparr>"
    using bit_cast_Header_Lock [of "m hdrp"]
    by (simp add: m' hp LockHeader_def Let_def LoadHeader_def)
  have at: "ptr_add (region t) (int size_cl) = hdrp"
    by (simp add: t hp GetHeader_def)
  have "hdr_end (LoadHeader m' (ptr_add (region t) (int size_cl))) = 0"
    and "hdr_begin (LoadHeader m' (ptr_add (region t) (int size_cl))) = 0xffff"
    by (simp_all add: at load)
  then have "Push i t m' size_cl item = (False, if i = Uninterrupted then t else kernel_abort t, m')"
    and "Pop i t m' size_cl = (0, if i = Uninterrupted then t else kernel_abort t, m')"
    by (simp_all only: Push_locked Pop_locked)
  with store load show ?thesis by blast
qed

lemma ex_GetHeader: "GetHeader 0x10000 18 0 1 = (0x10000, 1)"
  by (simp add: GetHeader_def CpuMemoryStart_def ptr_add_def)

lemma ex_region: "region ex_thread = CpuMemoryStart 0x10000 18 0"
  by (simp add: ex_thread_def CpuMemoryStart_def)

theorem Lock_sets_begin_and_end_only_witness:
  "LoadHeader (LockHeader ex_mem 0x10000 18 0 1) (0x10000, 1) =
     \<lparr>current = 5, end_copy = 6, hdr_begin = 0xffff, hdr_end = 0\<rparr> \<and>
   fst (Push Uninterrupted ex_thread (LockHeader ex_mem 0x10000 18 0 1) 1 0xBB) = False \<and>
   fst (Pop Uninterrupted ex_thread (LockHeader ex_mem 0x10000 18 0 1) 1) = 0"
proof -
  have l: "LoadHeader ex_mem (0x10000, 1) = \<lparr>current = 5, end_copy = 6, hdr_begin = 4, hdr_end = 6\<rparr>"
    using ex_header by (simp add: ex_thread_def ptr_add_def)
  note th = Lock_sets_begin_and_end_only [OF ex_GetHeader [symmetric] refl ex_region,
      of ex_mem Uninterrupted "0xBB"]
  have "LoadHeader (LockHeader ex_mem 0x10000 18 0 1) (0x10000, 1) =
     (LoadHeader ex_mem (0x10000, 1))\<lparr>hdr_begin := 0xffff, hdr_end := 0\<rparr>"
    by (rule th [THEN conjunct2, THEN conjunct1])
  moreover have "Push Uninterrupted ex_thread (LockHeader ex_mem 0x10000 18 0 1) 1 0xBB =
      (False, ex_thread, LockHeader ex_mem 0x10000 18 0 1)"
    using th [THEN conjunct2, THEN conjunct2, THEN conjunct1] by simp
  moreover have "Pop Uninterrupted ex_thread (LockHeader ex_mem 0x10000 18 0 1) 1 =
      (0, ex_thread, LockHeader ex_mem 0x10000 18 0 1)"
    using th [THEN conjunct2, THEN conjunct2, THEN conjunct2] by simp
  ultimately show ?thesis by (simp add: l)
qed

text \<open>
  Claim C10. For every CPU and every nonzero size class, if the \<open>end\<close> field of the header is
  0, then \<open>IsLocked\<close> holds of the header and \<open>Length\<close> and \<open>Capacity\<close> both return 0,
  whatever the fields \<open>current\<close> and \<open>begin\<close> hold. (A locked header, an all-zero header
  and a header in a page that was given back to the system have \<open>begin\<close> 0xffff or 0, the
  values the assertion of \<open>IsLocked\<close> admits with \<open>end = 0\<close>.)
\<close>

theorem Length_and_Capacity_of_locked_header:
  assumes "size_cl \<noteq> 0" and "slabs_and_shift st = (slabs, shift)"
    and "hdr = LoadHeader (heap st) (GetHeader slabs shift cpu size_cl)"
    and "hdr_end hdr = 0"
  shows "IsLocked hdr \<and> Length st cpu size_cl = 0 \<and> Capacity st cpu size_cl = 0"
  using assms by (simp add: Length_def Capacity_def IsLocked_def)

lemma ex_slab_header:
  "LoadHeader (heap ex_slab) (GetHeader 0x10000 18 0 1) =
     \<lparr>current = 5, end_copy = 6, hdr_begin = 0xffff, hdr_end = 0\<rparr>"
  unfolding ex_GetHeader by (simp add: ex_slab_def LoadHeader_def bit_cast_Header_int64)

theorem Length_and_Capacity_of_locked_header_witness:
  "Length ex_slab 0 1 = 0 \<and> Capacity ex_slab 0 1 = 0 \<and>
   current (LoadHeader (heap ex_slab) (GetHeader 0x10000 18 0 1)) = 5"
proof -
  have s: "slabs_and_shift ex_slab = (0x10000, 18)"
    by (simp add: ex_slab_def)
  have nz: "(1::nat) \<noteq> 0"
    by simp
  have e: "hdr_end \<lparr>current = 5, end_copy = 6, hdr_begin = 0xffff, hdr_end = 0\<rparr> = 0"
    by simp
  note th = Length_and_Capacity_of_locked_header [OF nz s ex_slab_header [symmetric] e]
  have "current (LoadHeader (heap ex_slab) (GetHeader 0x10000 18 0 1)) = 5"
    unfolding ex_slab_header by simp
  with th show ?thesis by blast
qed

section \<open>Arithmetic of the 16-bit offsets\<close>


lemma unat_ucast_16_64: "unat (ucast (x :: 16 word) :: 64 word) = unat x"
proof -
  have "unat x < 2 ^ 16" using unsigned_less [of x, where 'a = nat] by simp
  then have "unat x < 2 ^ 64" by simp
  then show ?thesis
    by (simp add: unsigned_ucast_eq take_bit_nat_eq_self)
qed

lemma ucast_diff_16_64:
  fixes e b :: "16 word"
  assumes "b \<le> e"
  shows "unat (ucast e - ucast b :: 64 word) = unat e - unat b"
proof -
  have "(ucast b :: 64 word) \<le> ucast e"
    using assms by (simp add: word_le_nat_alt unat_ucast_16_64)
  then show ?thesis
    by (simp add: unat_sub unat_ucast_16_64)
qed

lemma unat_ucast_64_16:
  "unat (x :: 64 word) < 65536 \<Longrightarrow> unat (ucast x :: 16 word) = unat x"
  by (simp add: unsigned_ucast_eq take_bit_nat_eq_self)


lemma min_unat: "unat (min (a :: 16 word) b) = min (unat a) (unat b)"
  by (simp add: min_def word_le_nat_alt)


lemma ucast_16_64_of_nat: "(ucast (x :: 16 word) :: 64 word) = of_nat (unat x)"
  by (rule word_unat_eq_iff [THEN iffD2]) (simp add: unat_ucast_16_64 unat_of_nat take_bit_nat_eq_self unsigned_ucast_eq)

lemma of_nat_16: "n < 65536 \<Longrightarrow> unat (of_nat n :: 16 word) = n"
  by (simp add: unat_of_nat)

section \<open>Growing and shrinking the capacity\<close>








lemma ex_active_header:
  "LoadHeader (heap ex_active) (GetHeader 0x10000 18 0 1) =
     \<lparr>current = 5, end_copy = 6, hdr_begin = 4, hdr_end = 6\<rparr>"
  unfolding ex_GetHeader by (simp add: ex_active_def ex_mem_def LoadHeader_def bit_cast_Header_int64)

lemma ex_active_shift: "slabs_and_shift ex_active = (0x10000, 18)"
  by (simp add: ex_active_def)


lemma unat_sub_16:
  fixes a b :: "16 word"
  assumes "b \<le> a"
  shows "unat (a - b) = unat a - unat b"
  using assms by (simp add: unat_sub)

lemma batch_items_slots:
  assumes "k \<le> c"
  shows "batch_items m (ptr_add start (int c - int k)) k =
         map (\<lambda>i. m (ptr_add start (int i))) [c - k ..< c]"
proof -
  have "k + (c - k) = c"
    using assms by linarith
  then have "[c - k ..< c] = map (\<lambda>i. i + (c - k)) [0..<k]"
    using map_add_upt [of "c - k" k] by simp
  moreover have "ptr_add (ptr_add start (int c - int k)) (int i) = ptr_add start (int (i + (c - k)))" for i
    using assms by (simp add: ptr_add_def)
  ultimately show ?thesis
    by (simp add: batch_items_def comp_def)
qed

lemma ShrinkOtherCache_words:
  assumes "slabs_and_shift st = (slabs, shift)"
    and "hdrp = GetHeader slabs shift cpu size_cl"
    and "hdr = LoadHeader (heap st) hdrp"
    and "begin = begins st size_cl"
    and "unused = hdr_end hdr - current hdr"
    and "pops = (ucast unused < len \<and> current hdr \<noteq> begin)"
    and "pop = (if pops then min (ucast (len - ucast unused)) (current hdr - begin) else 0)"
    and "to_shrink = min (ucast len) (hdr_end hdr - (current hdr - pop))"
  shows "ShrinkOtherCache st cpu size_cl len =
     (ucast to_shrink,
      (if pops then
         [\<lparr>shrink_class = size_cl,
           shrink_batch = ptr_add (CpuMemoryStart slabs shift cpu) (uint (current hdr) - uint pop),
           shrink_size = ucast pop,
           shrink_items = batch_items (heap st)
             (ptr_add (CpuMemoryStart slabs shift cpu) (uint (current hdr) - uint pop)) (unat pop)\<rparr>]
       else []),
      st\<lparr>heap := StoreHeader (heap st) hdrp
           (hdr\<lparr>current := current hdr - pop, hdr_end := hdr_end hdr - to_shrink\<rparr>)\<rparr>)"
  using assms by (simp add: ShrinkOtherCache_def Let_def)

text \<open>
  \<open>ShrinkOtherCache(cpu, s, len)\<close> where no conversion to \<open>uint16_t\<close> loses anything: with
  \<open>0 < len < 2 ^ 16\<close> and \<open>stopped[cpu]\<close> set, on a header with \<open>begin \<le> current \<le> end\<close>
  (\<open>begin\<close> being \<open>begins[s]\<close>). With \<open>unused = end - current\<close>, if \<open>unused < len\<close> and
  \<open>current > begin\<close> it calls \<open>shrink_handler\<close> once, with the
  \<open>pop = min(len - unused, current - begin)\<close> words of the slots
  \<open>current - pop .. current - 1\<close>, and decreases \<open>current\<close> by \<open>pop\<close>; otherwise it calls no
  handler. Then it decreases \<open>end\<close> by \<open>min(len, end - current)\<close>, taken with the new
  \<open>current\<close>, and returns that decrement.
\<close>

lemma ShrinkOtherCache_below_uint16:
  assumes s: "slabs_and_shift st = (slabs, shift)"
    and hp: "hdrp = GetHeader slabs shift cpu size_cl"
    and h: "hdr = LoadHeader (heap st) hdrp"
    and st: "stopped st cpu"
    and len: "0 < unat len" "unat len < 65536"
    and b: "begin = begins st size_cl"
    and inv: "begin \<le> current hdr" "current hdr \<le> hdr_end hdr"
    and unused: "unused = unat (hdr_end hdr) - unat (current hdr)"
    and pops: "pops = (unused < unat len \<and> begin < current hdr)"
    and pop: "pop = (if pops then min (unat len - unused) (unat (current hdr) - unat begin) else 0)"
    and to_shrink: "to_shrink = min (unat len) (unat (hdr_end hdr) - (unat (current hdr) - pop))"
  shows "ShrinkOtherCache st cpu size_cl len =
     (of_nat to_shrink,
      (if pops then
         [\<lparr>shrink_class = size_cl,
           shrink_batch = ptr_add (CpuMemoryStart slabs shift cpu) (uint (current hdr) - int pop),
           shrink_size = of_nat pop,
           shrink_items = map (\<lambda>i. heap st (ptr_add (CpuMemoryStart slabs shift cpu) (int i)))
                            [unat (current hdr) - pop ..< unat (current hdr)]\<rparr>]
       else []),
      st\<lparr>heap := StoreHeader (heap st) hdrp
           (hdr\<lparr>current := current hdr - of_nat pop, hdr_end := hdr_end hdr - of_nat to_shrink\<rparr>)\<rparr>)"
proof -
  let ?e = "hdr_end hdr" and ?c = "current hdr"
  define unused16 where "unused16 = ?e - ?c"
  define pops16 where "pops16 = (ucast unused16 < len \<and> ?c \<noteq> begin)"
  define pop16 where
    "pop16 = (if pops16 then min (ucast (len - ucast unused16)) (?c - begin) else 0)"
  define shrink16 where "shrink16 = min (ucast len) (?e - (?c - pop16))"
  have u16: "unat unused16 = unused"
    unfolding unused16_def unused by (rule unat_sub_16 [OF inv(2)])
  have u64: "unat (ucast unused16 :: 64 word) = unused"
    by (simp only: unat_ucast_16_64 u16)
  have "(?c \<noteq> begin) = (begin < ?c)"
    using inv(1) by auto
  then have pops_eq: "pops16 = pops"
    by (simp add: pops16_def pops word_less_nat_alt [of "ucast unused16" len] u64)
  have cb: "unat (?c - begin) = unat ?c - unat begin"
    by (rule unat_sub_16 [OF inv(1)])
  have pop_eq: "unat pop16 = pop"
  proof (cases pops)
    case True
    then have lt: "unused < unat len"
      by (simp add: pops)
    then have "(ucast unused16 :: 64 word) \<le> len"
      by (simp add: word_le_nat_alt u64)
    then have "unat (len - ucast unused16) = unat len - unused"
      by (simp add: unat_sub u64)
    moreover from this have "unat (len - ucast unused16) < 65536"
      using len(2) by linarith
    ultimately have "unat (ucast (len - ucast unused16) :: 16 word) = unat len - unused"
      by (simp only: unat_ucast_64_16)
    then show ?thesis
      using True by (simp add: pop16_def pops_eq pop min_unat cb)
  next
    case False
    then show ?thesis
      by (simp add: pop16_def pops_eq pop)
  qed
  have pop_le: "pop \<le> unat ?c - unat begin"
    by (simp add: pop)
  have pop16_le: "pop16 \<le> ?c - begin"
    using pop_le by (simp add: word_le_nat_alt pop_eq cb)
  have pop16_le_c: "pop16 \<le> ?c"
    using pop_le by (simp add: word_le_nat_alt pop_eq)
  have c1: "unat (?c - pop16) = unat ?c - pop"
    using unat_sub_16 [OF pop16_le_c] by (simp add: pop_eq)
  have "?c - pop16 \<le> ?e"
    using inv(2) by (simp add: word_le_nat_alt c1)
  then have "unat (?e - (?c - pop16)) = unat ?e - (unat ?c - pop)"
    using unat_sub_16 [of "?c - pop16" ?e] by (simp add: c1)
  moreover have "unat (ucast len :: 16 word) = unat len"
    using len(2) by (rule unat_ucast_64_16)
  ultimately have shrink_eq: "unat shrink16 = to_shrink"
    by (simp add: shrink16_def min_unat to_shrink)
  have pop16_nat: "pop16 = of_nat pop"
    using arg_cong [OF pop_eq, of "of_nat :: nat \<Rightarrow> 16 word"] by simp
  have shrink16_nat: "shrink16 = of_nat to_shrink"
    using arg_cong [OF shrink_eq, of "of_nat :: nat \<Rightarrow> 16 word"] by simp
  have ret: "(ucast shrink16 :: 64 word) = of_nat to_shrink"
    using ucast_16_64_of_nat [of shrink16] by (simp only: shrink_eq)
  have size: "(ucast pop16 :: 64 word) = of_nat pop"
    using ucast_16_64_of_nat [of pop16] by (simp only: pop_eq)
  have upop: "uint pop16 = int pop"
    by (simp only: uint_nat pop_eq)
  have "pop \<le> unat ?c"
    using pop_le by linarith
  then have items: "batch_items (heap st)
       (ptr_add (CpuMemoryStart slabs shift cpu) (uint ?c - int pop)) pop =
     map (\<lambda>i. heap st (ptr_add (CpuMemoryStart slabs shift cpu) (int i)))
       [unat ?c - pop ..< unat ?c]"
    unfolding uint_nat by (rule batch_items_slots)
  have "ShrinkOtherCache st cpu size_cl len =
     (ucast shrink16,
      (if pops16 then
         [\<lparr>shrink_class = size_cl,
           shrink_batch = ptr_add (CpuMemoryStart slabs shift cpu) (uint ?c - uint pop16),
           shrink_size = ucast pop16,
           shrink_items = batch_items (heap st)
             (ptr_add (CpuMemoryStart slabs shift cpu) (uint ?c - uint pop16)) (unat pop16)\<rparr>]
       else []),
      st\<lparr>heap := StoreHeader (heap st) hdrp
           (hdr\<lparr>current := ?c - pop16, hdr_end := ?e - shrink16\<rparr>)\<rparr>)"
    by (rule ShrinkOtherCache_words [OF s hp h b unused16_def pops16_def pop16_def shrink16_def])
  then show ?thesis
    by (simp only: ret size upop pop_eq items pops_eq) (simp only: pop16_nat shrink16_nat)
qed

lemma ex_active_begins: "begins ex_active 1 = 4"
  by (simp add: ex_active_def)

lemma ex_start: "CpuMemoryStart 0x10000 18 0 = (0x10000, 0)"
  by (simp add: CpuMemoryStart_def)

lemma ex_active_slot: "heap ex_active (0x10000, 4) = 0xAA"
  by (simp add: ex_active_def ex_mem_def)

lemma ShrinkOtherCache_below_uint16_ex:
  "ShrinkOtherCache ex_active 0 1 2 =
     (2,
      [\<lparr>shrink_class = 1, shrink_batch = (0x10000, 4), shrink_size = 1, shrink_items = [0xAA]\<rparr>],
      ex_active\<lparr>heap := StoreHeader (heap ex_active) (0x10000, 1)
         \<lparr>current = 4, end_copy = 6, hdr_begin = 4, hdr_end = 4\<rparr>\<rparr>)"
proof -
  let ?h = "\<lparr>current = 5, end_copy = 6, hdr_begin = 4, hdr_end = 6 :: 16 word\<rparr>"
  have st: "stopped ex_active 0"
    by (simp add: ex_active_def)
  have len: "0 < unat (2 :: 64 word)" "unat (2 :: 64 word) < 65536"
    by simp_all
  have inv: "4 \<le> current ?h" "current ?h \<le> hdr_end ?h"
    by simp_all
  note th = ShrinkOtherCache_below_uint16 [OF ex_active_shift ex_GetHeader [symmetric]
      ex_active_header [unfolded ex_GetHeader, symmetric] st len ex_active_begins [symmetric] inv
      refl refl refl refl]
  have items: "map (\<lambda>i. heap ex_active (ptr_add (0x10000, 0) (int i))) [4..<5] = [0xAA]"
    by (simp add: ex_active_def ex_mem_def ptr_add_def)
  show ?thesis
    by (subst th) (simp add: ex_start ex_active_slot ptr_add_def)
qed

text \<open>
  Claim C7 fails at \<open>len = 65536\<close>, a length that meets \<open>REQUIRES: len > 0\<close>. On the stopped
  CPU 0, the header of size class 1 has \<open>current = 5\<close> and \<open>end = 6\<close>, and \<open>begins[1] = 4\<close>:
  \<open>unused = 1 < len\<close> and \<open>current > begin\<close>, so one item is popped and handed to
  \<open>shrink_handler\<close>, after which \<open>end\<close> is to decrease by \<open>min(65536, 6 - 4) = 2\<close>, the
  capacity that is now free. \<open>std::min<uint16_t>(len, hdr.end - hdr.current)\<close> converts
  \<open>len\<close> to \<open>uint16_t\<close> first, which makes it 0: \<open>end\<close> stays 6 and the result is 0, the
  item having been taken from the slab.
\<close>

theorem ShrinkOtherCache_len_65536_shrinks_nothing:
  "LoadHeader (heap ex_active) (GetHeader 0x10000 18 0 1) =
     \<lparr>current = 5, end_copy = 6, hdr_begin = 4, hdr_end = 6\<rparr> \<and>
   begins ex_active 1 = 4 \<and> stopped ex_active 0 \<and> 0 < unat (65536 :: 64 word) \<and>
   min (unat (65536 :: 64 word)) (unat (6 :: 16 word) - (unat (5 :: 16 word) - 1)) = 2 \<and>
   ShrinkOtherCache ex_active 0 1 65536 =
     (0,
      [\<lparr>shrink_class = 1, shrink_batch = (0x10000, 4), shrink_size = 1, shrink_items = [0xAA]\<rparr>],
      ex_active\<lparr>heap := StoreHeader (heap ex_active) (0x10000, 1)
         \<lparr>current = 4, end_copy = 6, hdr_begin = 4, hdr_end = 6\<rparr>\<rparr>)"
proof -
  note w = ShrinkOtherCache_words [OF ex_active_shift ex_GetHeader [symmetric]
      ex_active_header [unfolded ex_GetHeader, symmetric] ex_active_begins [symmetric]
      refl refl refl refl, of 65536]
  have wrap: "(- 65530 :: 16 word) = 6"
    by simp
  have items: "batch_items (heap ex_active) (0x10000, 4) (Suc 0) = [0xAA]"
    by (simp add: batch_items_def ex_active_def ex_mem_def ptr_add_def)
  have "ShrinkOtherCache ex_active 0 1 65536 =
     (0,
      [\<lparr>shrink_class = 1, shrink_batch = (0x10000, 4), shrink_size = 1, shrink_items = [0xAA]\<rparr>],
      ex_active\<lparr>heap := StoreHeader (heap ex_active) (0x10000, 1)
         \<lparr>current = 4, end_copy = 6, hdr_begin = 4, hdr_end = 6\<rparr>\<rparr>)"
    by (subst w) (simp add: ex_start ptr_add_def items wrap)
  moreover have "stopped ex_active 0"
    by (simp add: ex_active_def)
  moreover have "0 < unat (65536 :: 64 word)"
    and "min (unat (65536 :: 64 word)) (unat (6 :: 16 word) - (unat (5 :: 16 word) - 1)) = 2"
    by simp_all
  ultimately show ?thesis
    using ex_active_header ex_active_begins by blast
qed

section \<open>Initialisation\<close>

lemma Init_ex: "Init ex_zero 3 ex_fresh_begins 0x10000 ex_capacity 18 = Inr ex_Init"
proof -
  have "(\<lambda>c. 0 :: 16 word)(Suc 0 := 4, Suc (Suc 0) := 7) = (\<lambda>c. 0)(Suc 0 := 4, 2 := 7)"
    by (simp add: numeral_2_eq_2)
  then show ?thesis
    by (simp add: Init_def InitCpuImpl_def ex_zero_def ex_capacity_def Let_def ex_Init_def
        ex_fresh_begins_def [abs_def])
qed

lemma InitCpu_ex: "InitCpu ex_Init 0 ex_capacity = Inr ex_InitCpu"
proof -
  have "(\<lambda>cpu :: nat. False)(0 := False) = (\<lambda>cpu. False)"
    by (simp add: fun_eq_iff)
  then show ?thesis
    by (simp add: InitCpu_def StopCpu_def InitCpuImpl_def ex_Init_def CpuMemoryStart_def
      ex_capacity_def Let_def ptr_add_def uintptr_def kBeginMark_def ex_InitCpu_def StartCpu_def
      StoreHeader_def)
qed

lemma ex_Init_header: "LoadHeader (heap ex_Init) (GetHeader 0x10000 18 cpu c) = bit_cast_Header 0"
  by (simp add: ex_Init_def LoadHeader_def)

lemma bit_cast_Header_0:
  "bit_cast_Header 0 = \<lparr>current = 0, end_copy = 0, hdr_begin = 0, hdr_end = 0\<rparr>"
  by (simp add: bit_cast_Header_def load16_def)

lemma ex_InitCpu_header:
  "LoadHeader (heap ex_InitCpu) (GetHeader 0x10000 18 0 1) =
     \<lparr>current = 4, end_copy = 0, hdr_begin = 0, hdr_end = 4\<rparr>"
  unfolding ex_GetHeader by (simp add: ex_InitCpu_def LoadHeader_def bit_cast_Header_int64)

lemma ex_InitCpu_shift: "slabs_and_shift ex_InitCpu = (0x10000, 18)"
  by (simp add: ex_InitCpu_def ex_Init_def)

text \<open>
  Claim C2 on the scenario of the spec. After \<open>Init\<close> the headers of CPU 0 are still all
  zero (\<open>Init\<close> calls \<open>InitCpuImpl\<close> with \<open>init_begins = true\<close>, which writes
  \<open>begins\<close> only), and \<open>Length\<close> and \<open>Capacity\<close> are 0. After \<open>InitCpu(0)\<close> the header of
  size class 1 has \<open>current = end = 4\<close> and \<open>begin = 0\<close>, and \<open>Length(0, 1)\<close> and
  \<open>Capacity(0, 1)\<close> are both 4, not 0.
\<close>

theorem InitCpu_Length_and_Capacity_not_zero:
  "Init ex_zero 3 ex_fresh_begins 0x10000 ex_capacity 18 = Inr ex_Init \<and>
   Length ex_Init 0 1 = 0 \<and> Capacity ex_Init 0 1 = 0 \<and>
   InitCpu ex_Init 0 ex_capacity = Inr ex_InitCpu \<and>
   LoadHeader (heap ex_InitCpu) (GetHeader 0x10000 18 0 1) =
     \<lparr>current = 4, end_copy = 0, hdr_begin = 0, hdr_end = 4\<rparr> \<and>
   Length ex_InitCpu 0 1 = 4 \<and> Capacity ex_InitCpu 0 1 = 4"
proof -
  have "Length ex_Init 0 1 = 0" and "Capacity ex_Init 0 1 = 0"
    by (simp_all add: Length_def Capacity_def ex_Init_def LoadHeader_def bit_cast_Header_0
        IsLocked_def)
  moreover have "Length ex_InitCpu 0 1 = 4" and "Capacity ex_InitCpu 0 1 = 4"
    unfolding Length_def Capacity_def ex_InitCpu_shift
    by (simp_all only: prod.case Let_def ex_InitCpu_header) (simp_all add: IsLocked_def)
  ultimately show ?thesis
    using Init_ex InitCpu_ex ex_InitCpu_header by blast
qed

text \<open>
  Claim C4 on the same scenario: after \<open>InitCpu(0)\<close>, \<open>begins[1]\<close> is 4 and the \<open>begin\<close>
  field of the header of size class 1 on CPU 0 is 0.
\<close>

theorem InitCpu_header_begin_is_not_begins:
  "InitCpu ex_Init 0 ex_capacity = Inr ex_InitCpu \<and>
   begins ex_InitCpu 1 = 4 \<and>
   hdr_begin (LoadHeader (heap ex_InitCpu) (GetHeader 0x10000 18 0 1)) = 0"
proof -
  have "begins ex_InitCpu 1 = 4"
    by (simp add: ex_InitCpu_def ex_Init_def)
  moreover have "hdr_begin (LoadHeader (heap ex_InitCpu) (GetHeader 0x10000 18 0 1)) = 0"
    unfolding ex_InitCpu_header by simp
  ultimately show ?thesis
    using InitCpu_ex by blast
qed

lemma ex_InitCpu_stopped_facts:
  "slabs_and_shift ex_InitCpu_stopped = (0x10000, 18)"
  "heap ex_InitCpu_stopped = heap ex_InitCpu"
  "begins ex_InitCpu_stopped 1 = 4"
  by (simp_all add: ex_InitCpu_stopped_def ex_InitCpu_def ex_Init_def)

text \<open>
  Claim C5 on the same scenario: \<open>InitCpu(0)\<close> leaves \<open>end_copy = 0\<close> beside \<open>end = 4\<close>;
  \<open>GrowOtherCache(0, 1, 2)\<close> then raises \<open>end\<close> to 6 and \<open>ShrinkOtherCache(0, 1, 1)\<close>
  lowers it to 5, and \<open>end_copy\<close> stays 0 through both.
\<close>

theorem end_copy_is_not_kept_equal_to_end:
  "InitCpu ex_Init 0 ex_capacity = Inr ex_InitCpu \<and>
   LoadHeader (heap ex_InitCpu) (GetHeader 0x10000 18 0 1) =
     \<lparr>current = 4, end_copy = 0, hdr_begin = 0, hdr_end = 4\<rparr> \<and>
   StopCpu ex_InitCpu 0 = Inr ex_InitCpu_stopped \<and>
   LoadHeader (heap (snd (GrowOtherCache ex_InitCpu_stopped 0 1 2 ex_max_capacity)))
       (GetHeader 0x10000 18 0 1) =
     \<lparr>current = 4, end_copy = 0, hdr_begin = 0, hdr_end = 6\<rparr> \<and>
   LoadHeader (heap (snd (snd (ShrinkOtherCache
         (snd (GrowOtherCache ex_InitCpu_stopped 0 1 2 ex_max_capacity)) 0 1 1))))
       (GetHeader 0x10000 18 0 1) =
     \<lparr>current = 4, end_copy = 0, hdr_begin = 0, hdr_end = 5\<rparr>"
proof -
  have stop: "StopCpu ex_InitCpu 0 = Inr ex_InitCpu_stopped"
    by (simp add: StopCpu_def ex_InitCpu_stopped_def ex_InitCpu_def ex_Init_def fun_eq_iff)
  let ?g = "snd (GrowOtherCache ex_InitCpu_stopped 0 1 2 ex_max_capacity)"
  have g: "?g = ex_InitCpu_stopped\<lparr>heap := StoreHeader (heap ex_InitCpu) (0x10000, 1)
              \<lparr>current = 4, end_copy = 0, hdr_begin = 0, hdr_end = 6\<rparr>\<rparr>"
    unfolding GrowOtherCache_def ex_InitCpu_stopped_facts
    by (simp only: prod.case Let_def ex_InitCpu_header ex_GetHeader [symmetric])
      (simp add: ex_max_capacity_def)
  have gl: "LoadHeader (heap ?g) (GetHeader 0x10000 18 0 1) =
     \<lparr>current = 4, end_copy = 0, hdr_begin = 0, hdr_end = 6\<rparr>"
    unfolding g ex_GetHeader by (simp add: LoadHeader_StoreHeader)
  have gf: "slabs_and_shift ?g = (0x10000, 18)" "begins ?g 1 = 4"
    unfolding g by (simp_all add: ex_InitCpu_stopped_facts del: One_nat_def)
  have "snd (snd (ShrinkOtherCache ?g 0 1 1)) = ?g\<lparr>heap := StoreHeader (heap ?g) (0x10000, 1)
              \<lparr>current = 4, end_copy = 0, hdr_begin = 0, hdr_end = 5\<rparr>\<rparr>"
    unfolding ShrinkOtherCache_def gf
    by (simp only: prod.case Let_def gl ex_GetHeader [symmetric]) simp
  then have "LoadHeader (heap (snd (snd (ShrinkOtherCache ?g 0 1 1)))) (GetHeader 0x10000 18 0 1) =
     \<lparr>current = 4, end_copy = 0, hdr_begin = 0, hdr_end = 5\<rparr>"
    unfolding ex_GetHeader by (simp add: LoadHeader_StoreHeader)
  then show ?thesis
    using InitCpu_ex ex_InitCpu_header stop gl by blast
qed

section \<open>Draining a CPU\<close>


declare DrainCpu_loop.simps [simp del]

lemma GetHeader_inj:
  "(GetHeader slabs shift cpu s = GetHeader slabs shift cpu s') = (s = s')"
  by (simp add: GetHeader_def ptr_add_def CpuMemoryStart_def)

lemma DrainCpu_loop_step:
  "k < n \<Longrightarrow> snd (DrainCpu_loop n bs slabs shift cpu k m) =
     snd (DrainCpu_loop n bs slabs shift cpu (k + 1)
       (let hdrp = GetHeader slabs shift cpu k; hdr = LoadHeader m hdrp
        in if current hdr = 0 then m
           else StoreHeader m hdrp (hdr\<lparr>current := bs k, hdr_end := bs k\<rparr>)))"
  by (subst DrainCpu_loop.simps) (simp add: Let_def split_beta)

lemma DrainCpu_loop_done: "\<not> k < n \<Longrightarrow> DrainCpu_loop n bs slabs shift cpu k m = ([], m)"
  by (subst DrainCpu_loop.simps) simp

lemma DrainCpu_loop_frame:
  "(\<And>s. k \<le> s \<Longrightarrow> s < n \<Longrightarrow> p \<noteq> GetHeader slabs shift cpu s) \<Longrightarrow>
   snd (DrainCpu_loop n bs slabs shift cpu k m) p = m p"
proof (induction "n - k" arbitrary: k m)
  case 0
  then show ?case by (simp add: DrainCpu_loop_done)
next
  case (Suc d)
  then have kn: "k < n" by linarith
  have ne: "p \<noteq> GetHeader slabs shift cpu k"
    using Suc.prems kn by simp
  have d: "d = n - (k + 1)"
    using Suc.hyps(2) by linarith
  have rest: "\<And>s. k + 1 \<le> s \<Longrightarrow> s < n \<Longrightarrow> p \<noteq> GetHeader slabs shift cpu s"
    using Suc.prems by simp
  let ?m1 = "let hdrp = GetHeader slabs shift cpu k; hdr = LoadHeader m hdrp
        in if current hdr = 0 then m
           else StoreHeader m hdrp (hdr\<lparr>current := bs k, hdr_end := bs k\<rparr>)"
  have "snd (DrainCpu_loop n bs slabs shift cpu (k + 1) ?m1) p = ?m1 p"
    by (rule Suc.hyps(1) [OF d rest])
  moreover have "?m1 p = m p"
    using ne by (simp add: Let_def StoreHeader_def)
  ultimately show ?case
    unfolding DrainCpu_loop_step [OF kn] by (simp only:)
qed

lemma DrainCpu_loop_headers:
  "k \<le> s \<Longrightarrow> s < n \<Longrightarrow>
   LoadHeader (snd (DrainCpu_loop n bs slabs shift cpu k m)) (GetHeader slabs shift cpu s) =
     (let hdr = LoadHeader m (GetHeader slabs shift cpu s)
      in if current hdr = 0 then hdr else hdr\<lparr>current := bs s, hdr_end := bs s\<rparr>)"
proof (induction "n - k" arbitrary: k m)
  case 0
  then show ?case by simp
next
  case (Suc d)
  then have kn: "k < n" by linarith
  have d: "d = n - (k + 1)"
    using Suc.hyps(2) by linarith
  let ?hp = "GetHeader slabs shift cpu k"
  let ?m1 = "let hdrp = ?hp; hdr = LoadHeader m hdrp
        in if current hdr = 0 then m
           else StoreHeader m hdrp (hdr\<lparr>current := bs k, hdr_end := bs k\<rparr>)"
  show ?case
  proof (cases "s = k")
    case True
    have "snd (DrainCpu_loop n bs slabs shift cpu (k + 1) ?m1) ?hp = ?m1 ?hp"
      by (rule DrainCpu_loop_frame) (simp add: GetHeader_inj)
    then have "LoadHeader (snd (DrainCpu_loop n bs slabs shift cpu k m)) ?hp = LoadHeader ?m1 ?hp"
      unfolding DrainCpu_loop_step [OF kn] by (simp add: LoadHeader_def)
    then show ?thesis
      by (simp add: True Let_def LoadHeader_StoreHeader)
  next
    case False
    then have s: "k + 1 \<le> s" using Suc.prems by linarith
    have "LoadHeader ?m1 (GetHeader slabs shift cpu s) = LoadHeader m (GetHeader slabs shift cpu s)"
      using False by (simp add: Let_def LoadHeader_StoreHeader_other GetHeader_inj)
    then show ?thesis
      unfolding DrainCpu_loop_step [OF kn]
      using Suc.hyps(1) [OF d s Suc.prems(2), of ?m1] by simp
  qed
qed

lemma DrainCpu_loop_calls_step:
  "k < n \<Longrightarrow> fst (DrainCpu_loop n bs slabs shift cpu k m) =
     (let hdrp = GetHeader slabs shift cpu k; hdr = LoadHeader m hdrp
      in if current hdr = 0 then fst (DrainCpu_loop n bs slabs shift cpu (k + 1) m)
         else
           \<lparr>drain_cpu = cpu, drain_class = k,
             drain_batch = ptr_add (CpuMemoryStart slabs shift cpu) (uint (bs k)),
             drain_size = ucast (current hdr) - ucast (bs k),
             drain_cap = ucast (hdr_end hdr) - ucast (bs k),
             drain_items = batch_items m (ptr_add (CpuMemoryStart slabs shift cpu) (uint (bs k)))
                (unat (ucast (current hdr) - ucast (bs k) :: 64 word))\<rparr> #
           fst (DrainCpu_loop n bs slabs shift cpu (k + 1)
                  (StoreHeader m hdrp (hdr\<lparr>current := bs k, hdr_end := bs k\<rparr>))))"
  by (subst DrainCpu_loop.simps) (simp add: Let_def split_beta)

lemma DrainCpu_loop_args:
  "map drain_args (fst (DrainCpu_loop n bs slabs shift cpu k m)) =
     map (drain_handler_args bs m slabs shift cpu) (filter (drained m slabs shift cpu) [k..<n])"
proof (induction "n - k" arbitrary: k m)
  case 0
  then show ?case by (simp add: DrainCpu_loop_done)
next
  case (Suc d)
  then have kn: "k < n" by linarith
  have d: "d = n - (k + 1)"
    using Suc.hyps(2) by linarith
  have upt: "[k..<n] = k # [k + 1..<n]"
    using kn by (simp add: upt_conv_Cons)
  let ?hp = "GetHeader slabs shift cpu k"
  let ?hdr = "LoadHeader m ?hp"
  show ?case
  proof (cases "current ?hdr = 0")
    case True
    then show ?thesis
      using Suc.hyps(1) [OF d, of m]
      by (simp only: DrainCpu_loop_calls_step [OF kn] upt Let_def) (simp add: drained_def)
  next
    case False
    let ?m1 = "StoreHeader m ?hp (?hdr\<lparr>current := bs k, hdr_end := bs k\<rparr>)"
    have same: "LoadHeader ?m1 (GetHeader slabs shift cpu s) = LoadHeader m (GetHeader slabs shift cpu s)"
      if "s \<in> set [k + 1..<n]" for s
      using that by (simp add: LoadHeader_StoreHeader_other GetHeader_inj)
    have "map (drain_handler_args bs ?m1 slabs shift cpu) (filter (drained ?m1 slabs shift cpu) [k + 1..<n])
        = map (drain_handler_args bs m slabs shift cpu) (filter (drained m slabs shift cpu) [k + 1..<n])"
      using same
      by (intro arg_cong2 [where f = map] ext filter_cong refl map_cong)
         (auto simp: drain_handler_args_def drained_def)
    with Suc.hyps(1) [OF d, of ?m1]
    have ih: "map drain_args (fst (DrainCpu_loop n bs slabs shift cpu (k + 1) ?m1)) =
        map (drain_handler_args bs m slabs shift cpu) (filter (drained m slabs shift cpu) [k + 1..<n])"
      by (simp only:)
    have dk: "drained m slabs shift cpu k"
      using False by (simp add: drained_def)
    have head: "drain_args
           \<lparr>drain_cpu = cpu, drain_class = k,
             drain_batch = ptr_add (CpuMemoryStart slabs shift cpu) (uint (bs k)),
             drain_size = ucast (current ?hdr) - ucast (bs k),
             drain_cap = ucast (hdr_end ?hdr) - ucast (bs k),
             drain_items = batch_items m (ptr_add (CpuMemoryStart slabs shift cpu) (uint (bs k)))
                (unat (ucast (current ?hdr) - ucast (bs k) :: 64 word))\<rparr>
        = drain_handler_args bs m slabs shift cpu k"
      by (simp add: drain_args_def drain_handler_args_def Let_def)
    show ?thesis
      by (simp only: DrainCpu_loop_calls_step [OF kn] upt Let_def False if_False list.map
          filter.simps dk if_True head ih)
  qed
qed

lemma DrainCpu_loop_pair:
  "DrainCpu_loop n bs slabs shift cpu k m =
     (fst (DrainCpu_loop n bs slabs shift cpu k m), snd (DrainCpu_loop n bs slabs shift cpu k m))"
  by simp

lemma Drain_running:
  assumes "\<not> stopped st cpu" and "slabs_and_shift st = (slabs, shift)"
  shows "Drain st cpu =
    Inr (fst (DrainCpu_loop (num_classes st) (begins st) slabs shift cpu 1 (heap st)),
         st\<lparr>heap := snd (DrainCpu_loop (num_classes st) (begins st) slabs shift cpu 1 (heap st))\<rparr>)"
proof -
  have "(stopped st)(cpu := False) = stopped st"
    using assms(1) by (simp add: fun_eq_iff)
  then show ?thesis
    using assms
    by (simp add: Drain_def StopCpu_def DrainCpu_def StartCpu_def split_beta)
qed

text \<open>
  Claim C3, as amended. \<open>Drain(cpu)\<close> on a CPU that is not stopped returns, with the CPU
  restarted and nothing but headers of that CPU changed. The handler was invoked exactly
  for the size classes \<open>s\<close> in \<open>1 .. num_classes - 1\<close> whose header has
  \<open>current \<noteq> 0\<close>, once each in increasing order, with \<open>size = current - begins[s]\<close>,
  \<open>cap = end - begins[s]\<close> and the batch at offset \<open>begins[s]\<close> of the region; such a
  header ends with \<open>current = end = begins[s]\<close>, its other two fields unchanged. A header
  with \<open>current = 0\<close> is skipped: no call, and the header stays as it was.
\<close>

theorem Drain_resets_initialised_headers:
  assumes ns: "\<not> stopped st cpu" and ss: "slabs_and_shift st = (slabs, shift)"
  shows "\<exists>calls m'. Drain st cpu = Inr (calls, st\<lparr>heap := m'\<rparr>) \<and>
      map drain_args calls =
        map (drain_handler_args (begins st) (heap st) slabs shift cpu)
          (filter (drained (heap st) slabs shift cpu) [1..<num_classes st]) \<and>
      (\<forall>s. 1 \<le> s \<and> s < num_classes st \<longrightarrow>
         LoadHeader m' (GetHeader slabs shift cpu s) =
           (let hdr = LoadHeader (heap st) (GetHeader slabs shift cpu s)
            in if drained (heap st) slabs shift cpu s
               then hdr\<lparr>current := begins st s, hdr_end := begins st s\<rparr> else hdr)) \<and>
      (\<forall>p. (\<forall>s. 1 \<le> s \<and> s < num_classes st \<longrightarrow> p \<noteq> GetHeader slabs shift cpu s) \<longrightarrow>
         m' p = heap st p)"
proof (intro exI conjI allI impI)
  let ?loop = "DrainCpu_loop (num_classes st) (begins st) slabs shift cpu 1 (heap st)"
  show "Drain st cpu = Inr (fst ?loop, st\<lparr>heap := snd ?loop\<rparr>)"
    by (rule Drain_running [OF ns ss])
  show "map drain_args (fst ?loop) =
        map (drain_handler_args (begins st) (heap st) slabs shift cpu)
          (filter (drained (heap st) slabs shift cpu) [1..<num_classes st])"
    by (rule DrainCpu_loop_args)
  show "LoadHeader (snd ?loop) (GetHeader slabs shift cpu s) =
           (let hdr = LoadHeader (heap st) (GetHeader slabs shift cpu s)
            in if drained (heap st) slabs shift cpu s
               then hdr\<lparr>current := begins st s, hdr_end := begins st s\<rparr> else hdr)"
    if "1 \<le> s \<and> s < num_classes st" for s
    using that DrainCpu_loop_headers [of 1 s "num_classes st" "begins st" slabs shift cpu "heap st"]
    by (simp add: drained_def Let_def)
  show "snd ?loop p = heap st p"
    if "\<forall>s. 1 \<le> s \<and> s < num_classes st \<longrightarrow> p \<noteq> GetHeader slabs shift cpu s" for p
    using that by (intro DrainCpu_loop_frame) simp
qed

lemma ex_GetHeader2: "GetHeader 0x10000 18 0 2 = (0x10000, 2)"
  by (simp add: GetHeader_def CpuMemoryStart_def ptr_add_def)

lemma ex_running_facts:
  "\<not> stopped ex_running 0" "slabs_and_shift ex_running = (0x10000, 18)"
  "num_classes ex_running = 3" "heap ex_running = ex_mem"
  "begins ex_running 1 = 4" "begins ex_running 2 = 7"
  by (simp_all add: ex_running_def)

lemma ex_mem_headers:
  "LoadHeader ex_mem (0x10000, 1) = \<lparr>current = 5, end_copy = 6, hdr_begin = 4, hdr_end = 6\<rparr>"
  "LoadHeader ex_mem (0x10000, 2) = \<lparr>current = 0, end_copy = 0, hdr_begin = 0, hdr_end = 0\<rparr>"
  by (simp_all add: ex_mem_def LoadHeader_def bit_cast_Header_int64 bit_cast_Header_0)

theorem Drain_resets_initialised_headers_witness:
  "\<exists>calls m'. Drain ex_running 0 = Inr (calls, ex_running\<lparr>heap := m'\<rparr>) \<and>
     map drain_args calls = [(0, 1, (0x10000, 4), 1, 2)] \<and>
     LoadHeader m' (0x10000, 1) = \<lparr>current = 4, end_copy = 6, hdr_begin = 4, hdr_end = 4\<rparr> \<and>
     LoadHeader m' (0x10000, 2) = \<lparr>current = 0, end_copy = 0, hdr_begin = 0, hdr_end = 0\<rparr>"
proof -
  from Drain_resets_initialised_headers [OF ex_running_facts(1,2)]
  obtain calls m' where d: "Drain ex_running 0 = Inr (calls, ex_running\<lparr>heap := m'\<rparr>)"
    and c: "map drain_args calls =
        map (drain_handler_args (begins ex_running) (heap ex_running) 0x10000 18 0)
          (filter (drained (heap ex_running) 0x10000 18 0) [1..<num_classes ex_running])"
    and h: "\<And>s. 1 \<le> s \<and> s < num_classes ex_running \<Longrightarrow>
         LoadHeader m' (GetHeader 0x10000 18 0 s) =
           (let hdr = LoadHeader (heap ex_running) (GetHeader 0x10000 18 0 s)
            in if drained (heap ex_running) 0x10000 18 0 s
               then hdr\<lparr>current := begins ex_running s, hdr_end := begins ex_running s\<rparr> else hdr)"
    by blast
  have d1: "drained ex_mem 0x10000 18 0 1" and d2: "\<not> drained ex_mem 0x10000 18 0 2"
    unfolding drained_def ex_GetHeader ex_GetHeader2 by (simp_all add: ex_mem_headers)
  have upt: "[1..<3] = [1, 2 :: nat]"
    by (simp add: upt_rec)
  have a1: "drain_handler_args (begins ex_running) ex_mem 0x10000 18 0 1 = (0, 1, (0x10000, 4), 1, 2)"
    unfolding drain_handler_args_def ex_GetHeader ex_start
    by (simp add: ex_mem_headers ex_running_facts ptr_add_def del: One_nat_def)
  have "map drain_args calls = [(0, 1, (0x10000, 4), 1, 2)]"
    unfolding c ex_running_facts upt by (simp add: d1 d2 a1 del: One_nat_def)
  moreover have "LoadHeader m' (0x10000, 1) = \<lparr>current = 4, end_copy = 6, hdr_begin = 4, hdr_end = 4\<rparr>"
    using h [of 1] unfolding ex_running_facts ex_GetHeader
    by (simp add: d1 [unfolded ex_GetHeader] ex_mem_headers ex_running_facts del: One_nat_def)
  moreover have "LoadHeader m' (0x10000, 2) = \<lparr>current = 0, end_copy = 0, hdr_begin = 0, hdr_end = 0\<rparr>"
    using h [of 2] unfolding ex_running_facts ex_GetHeader2
    by (simp add: d2 ex_mem_headers)
  ultimately have "Drain ex_running 0 = Inr (calls, ex_running\<lparr>heap := m'\<rparr>) \<and>
     map drain_args calls = [(0, 1, (0x10000, 4), 1, 2)] \<and>
     LoadHeader m' (0x10000, 1) = \<lparr>current = 4, end_copy = 6, hdr_begin = 4, hdr_end = 4\<rparr> \<and>
     LoadHeader m' (0x10000, 2) = \<lparr>current = 0, end_copy = 0, hdr_begin = 0, hdr_end = 0\<rparr>"
    using d by (intro conjI)
  then show ?thesis
    by (intro exI)
qed

text \<open>
  As stated, for every size class, the claim fails: the loop of \<open>DrainCpu\<close> skips a header
  whose \<open>current\<close> is 0. On CPU 1 of the scenario, which was never initialised, \<open>Drain\<close>
  invokes no handler and leaves the zero headers, whose \<open>current\<close> and \<open>end\<close> are not
  \<open>begins[1] = 4\<close>.
\<close>

theorem Drain_skips_uninitialised_headers_counterexample:
  "num_classes ex_Init = 3 \<and> begins ex_Init 1 = 4 \<and>
   LoadHeader (heap ex_Init) (GetHeader 0x10000 18 1 1) =
     \<lparr>current = 0, end_copy = 0, hdr_begin = 0, hdr_end = 0\<rparr> \<and>
   Drain ex_Init 1 = Inr ([], ex_Init)"
proof -
  have f: "\<not> stopped ex_Init 1" "slabs_and_shift ex_Init = (0x10000, 18)"
    by (simp_all add: ex_Init_def)
  have z: "LoadHeader (heap ex_Init) p = \<lparr>current = 0, end_copy = 0, hdr_begin = 0, hdr_end = 0\<rparr>" for p
    by (simp add: ex_Init_def LoadHeader_def bit_cast_Header_0)
  have "DrainCpu_loop 3 (begins ex_Init) 0x10000 18 1 1 (heap ex_Init) = ([], heap ex_Init)"
    by (simp add: DrainCpu_loop.simps z)
  then have "Drain ex_Init 1 = Inr ([], ex_Init)"
    unfolding Drain_running [OF f] by (simp add: ex_Init_def)
  moreover have "num_classes ex_Init = 3" "begins ex_Init 1 = 4"
    by (simp_all add: ex_Init_def)
  ultimately show ?thesis
    using z by blast
qed

section \<open>Resizing the slab bank\<close>

declare InitCpuImpl_loop.simps [simp del]
declare ResizeSlabs_stop.simps [simp del]
declare ResizeSlabs_drain.simps [simp del]
declare ResizeSlabs_start.simps [simp del]

lemma InitCpuImpl_loop_frame:
  "InitCpuImpl_loop n capacity False shift cur_slab size_cl elems prev_empty bs m = Inr (bs', m')
   \<Longrightarrow> bs' = bs \<and> (\<forall>p. fst p \<noteq> fst cur_slab \<longrightarrow> m' p = m p)"
proof (induction "n - size_cl" arbitrary: size_cl elems prev_empty m)
  case 0
  then show ?case
    by (subst (asm) InitCpuImpl_loop.simps) simp
next
  case (Suc d)
  then have lt: "size_cl < n" by linarith
  have d: "d = n - (size_cl + 1)"
    using Suc.hyps(2) by linarith
  let ?cap = "capacity size_cl"
  let ?m1 = "if \<not> prev_empty
             then m(ptr_add cur_slab elems := uintptr (ptr_add cur_slab elems) OR kBeginMark) else m"
  let ?elems1 = "if \<not> prev_empty then elems + 1 else elems"
  let ?m2 = "StoreHeader ?m1 (ptr_add cur_slab (int size_cl))
               \<lparr>current = word_of_int ?elems1, end_copy = 0, hdr_begin = 0,
                  hdr_end = word_of_int ?elems1\<rparr>"
  from Suc.prems lt
  have rec: "InitCpuImpl_loop n capacity False shift cur_slab (size_cl + 1) (?elems1 + uint ?cap)
               (?cap = 0) bs ?m2 = Inr (bs', m')"
    by (subst (asm) InitCpuImpl_loop.simps) (simp add: Let_def split: if_splits)
  have "bs' = bs \<and> (\<forall>p. fst p \<noteq> fst cur_slab \<longrightarrow> m' p = ?m2 p)"
    by (rule Suc.hyps(1) [OF d rec])
  moreover have "?m2 p = m p" if "fst p \<noteq> fst cur_slab" for p
    using that by (auto simp: StoreHeader_def ptr_add_def)
  ultimately show ?case
    by simp
qed

lemma InitCpuImpl_frame:
  assumes "InitCpuImpl st slabs shift cpu False capacity = Inr st'"
  shows "st' = st\<lparr>heap := heap st'\<rparr> \<and> (\<forall>p. fst p \<noteq> slabs \<longrightarrow> heap st' p = heap st p)"
proof -
  from assms obtain bs' m' where
    loop: "InitCpuImpl_loop (num_classes st) capacity False shift (CpuMemoryStart slabs shift cpu) 1
        (int (num_classes st)) False (begins st) (heap st) = Inr (bs', m')"
    and st': "st' = st\<lparr>begins := bs', heap := m'\<rparr>"
    by (auto simp: InitCpuImpl_def split: if_splits sum.splits)
  from InitCpuImpl_loop_frame [OF loop]
  show ?thesis
    by (simp add: st' CpuMemoryStart_def)
qed

lemma ResizeSlabs_stop_frame:
  "ResizeSlabs_stop num_cpus populated capacity new_slabs new_shift cpu st = Inr st'
   \<Longrightarrow> num_classes st' = num_classes st \<and> begins st' = begins st \<and>
       slabs_and_shift st' = slabs_and_shift st \<and>
       (\<forall>p. fst p \<noteq> new_slabs \<longrightarrow> heap st' p = heap st p)"
proof (induction "num_cpus - cpu" arbitrary: cpu st)
  case 0
  then show ?case
    by (subst (asm) ResizeSlabs_stop.simps) simp
next
  case (Suc d)
  then have lt: "cpu < num_cpus" by linarith
  have d: "d = num_cpus - (cpu + 1)"
    using Suc.hyps(2) by linarith
  let ?st1 = "st\<lparr>stopped := (stopped st)(cpu := True)\<rparr>"
  show ?case
  proof (cases "populated cpu")
    case False
    with Suc.prems lt
    have "ResizeSlabs_stop num_cpus populated capacity new_slabs new_shift (cpu + 1) ?st1 = Inr st'"
      by (subst (asm) ResizeSlabs_stop.simps) (simp add: Let_def split: if_splits)
    from Suc.hyps(1) [OF d this] show ?thesis
      by simp
  next
    case True
    with Suc.prems lt obtain st2 where
      i: "InitCpuImpl ?st1 new_slabs new_shift cpu False capacity = Inr st2"
      and r: "ResizeSlabs_stop num_cpus populated capacity new_slabs new_shift (cpu + 1) st2 = Inr st'"
      by (subst (asm) ResizeSlabs_stop.simps) (auto simp: Let_def split: if_splits sum.splits)
    from InitCpuImpl_frame [OF i]
    have st2: "st2 = ?st1\<lparr>heap := heap st2\<rparr>"
      and m2: "\<forall>p. fst p \<noteq> new_slabs \<longrightarrow> heap st2 p = heap st p"
      by simp_all
    have f: "num_classes st2 = num_classes st" "begins st2 = begins st"
        "slabs_and_shift st2 = slabs_and_shift st"
      by (subst st2, simp)+
    from Suc.hyps(1) [OF d r] show ?thesis
      using m2 by (simp add: f)
  qed
qed

lemma batch_items_cong:
  assumes "\<And>j. j < k \<Longrightarrow> m' (ptr_add batch (int j)) = m (ptr_add batch (int j))"
  shows "batch_items m' batch k = batch_items m batch k"
  using assms by (simp add: batch_items_def)

lemma slab_items_cong:
  assumes h: "LoadHeader m' (GetHeader slabs shift cpu s) = LoadHeader m (GetHeader slabs shift cpu s)"
    and slots: "\<And>j. unat (bs s) \<le> j \<Longrightarrow>
        j < unat (current (LoadHeader m (GetHeader slabs shift cpu s))) \<Longrightarrow>
        m' (ptr_add (CpuMemoryStart slabs shift cpu) (int j)) =
        m (ptr_add (CpuMemoryStart slabs shift cpu) (int j))"
  shows "slab_items bs m' slabs shift cpu s = slab_items bs m slabs shift cpu s"
proof -
  let ?start = "CpuMemoryStart slabs shift cpu"
  have "m' (ptr_add (ptr_add ?start (uint (bs s))) (int j)) =
        m (ptr_add (ptr_add ?start (uint (bs s))) (int j))"
    if j: "j < unat (current (LoadHeader m (GetHeader slabs shift cpu s))) - unat (bs s)" for j
  proof -
    have e: "ptr_add (ptr_add ?start (uint (bs s))) (int j) = ptr_add ?start (int (unat (bs s) + j))"
      unfolding uint_nat by (simp add: ptr_add_def)
    show ?thesis
      unfolding e using j by (intro slots) linarith+
  qed
  then show ?thesis
    unfolding slab_items_def h by (rule batch_items_cong)
qed

lemma DrainCpu_loop_items:
  assumes above: "\<And>s. k \<le> s \<Longrightarrow> s < n \<Longrightarrow> n \<le> unat (bs s)"
    and wf: "\<And>s. k \<le> s \<Longrightarrow> s < n \<Longrightarrow>
        current (LoadHeader m (GetHeader slabs shift cpu s)) = 0 \<or>
        bs s \<le> current (LoadHeader m (GetHeader slabs shift cpu s))"
  shows "concat (map drain_items (fst (DrainCpu_loop n bs slabs shift cpu k m))) =
         concat (map (slab_items bs m slabs shift cpu) [k..<n])"
  using assms
proof (induction "n - k" arbitrary: k m)
  case 0
  then show ?case by (simp add: DrainCpu_loop_done)
next
  case (Suc d)
  then have kn: "k < n" by linarith
  have d: "d = n - (k + 1)"
    using Suc.hyps(2) by linarith
  have upt: "[k..<n] = k # [k + 1..<n]"
    using kn by (simp add: upt_conv_Cons)
  let ?hp = "GetHeader slabs shift cpu k"
  let ?hdr = "LoadHeader m ?hp"
  let ?batch = "ptr_add (CpuMemoryStart slabs shift cpu) (uint (bs k))"
  show ?case
  proof (cases "current ?hdr = 0")
    case True
    have "slab_items bs m slabs shift cpu k = []"
      by (simp add: slab_items_def True batch_items_def)
    moreover have "concat (map drain_items (fst (DrainCpu_loop n bs slabs shift cpu (k + 1) m))) =
         concat (map (slab_items bs m slabs shift cpu) [k + 1..<n])"
      by (rule Suc.hyps(1) [OF d]) (simp_all add: Suc.prems)
    moreover have "fst (DrainCpu_loop n bs slabs shift cpu k m) =
        fst (DrainCpu_loop n bs slabs shift cpu (k + 1) m)"
      using True by (simp add: DrainCpu_loop_calls_step [OF kn] Let_def)
    ultimately show ?thesis
      by (simp add: upt)
  next
    case False
    let ?m1 = "StoreHeader m ?hp (?hdr\<lparr>current := bs k, hdr_end := bs k\<rparr>)"
    have le: "bs k \<le> current ?hdr"
      using Suc.prems(2) [of k] kn False by simp
    have size: "unat (ucast (current ?hdr) - ucast (bs k) :: 64 word) =
        unat (current ?hdr) - unat (bs k)"
      by (rule ucast_diff_16_64 [OF le])
    have head: "batch_items m ?batch (unat (ucast (current ?hdr) - ucast (bs k) :: 64 word)) =
        slab_items bs m slabs shift cpu k"
      by (simp only: size slab_items_def)
    have hsame: "LoadHeader ?m1 (GetHeader slabs shift cpu s) = LoadHeader m (GetHeader slabs shift cpu s)"
      if "k + 1 \<le> s" for s
      using that by (simp add: LoadHeader_StoreHeader_other GetHeader_inj)
    have ssame: "slab_items bs ?m1 slabs shift cpu s = slab_items bs m slabs shift cpu s"
      if s: "s \<in> set [k + 1..<n]" for s
    proof (rule slab_items_cong)
      show "LoadHeader ?m1 (GetHeader slabs shift cpu s) = LoadHeader m (GetHeader slabs shift cpu s)"
        using s by (intro hsame) simp
      fix j assume "unat (bs s) \<le> j"
      moreover have "n \<le> unat (bs s)"
        using s by (intro Suc.prems(1)) simp_all
      ultimately have "int j \<noteq> int k"
        using kn by linarith
      then show "?m1 (ptr_add (CpuMemoryStart slabs shift cpu) (int j)) =
          m (ptr_add (CpuMemoryStart slabs shift cpu) (int j))"
        by (simp add: StoreHeader_def GetHeader_def ptr_add_def)
    qed
    have "concat (map drain_items (fst (DrainCpu_loop n bs slabs shift cpu (k + 1) ?m1))) =
         concat (map (slab_items bs ?m1 slabs shift cpu) [k + 1..<n])"
    proof (rule Suc.hyps(1) [OF d])
      fix s assume s: "k + 1 \<le> s" "s < n"
      then show "n \<le> unat (bs s)"
        by (intro Suc.prems(1)) simp_all
      show "current (LoadHeader ?m1 (GetHeader slabs shift cpu s)) = 0 \<or>
            bs s \<le> current (LoadHeader ?m1 (GetHeader slabs shift cpu s))"
        unfolding hsame [OF s(1)] using s by (intro Suc.prems(2)) simp_all
    qed
    also have "\<dots> = concat (map (slab_items bs m slabs shift cpu) [k + 1..<n])"
      using ssame by (intro arg_cong [where f = concat] map_cong refl)
    finally have rest: "concat (map drain_items (fst (DrainCpu_loop n bs slabs shift cpu (k + 1) ?m1))) =
        concat (map (slab_items bs m slabs shift cpu) [k + 1..<n])" .
    have "fst (DrainCpu_loop n bs slabs shift cpu k m) =
        \<lparr>drain_cpu = cpu, drain_class = k, drain_batch = ?batch,
          drain_size = ucast (current ?hdr) - ucast (bs k),
          drain_cap = ucast (hdr_end ?hdr) - ucast (bs k),
          drain_items = slab_items bs m slabs shift cpu k\<rparr> #
        fst (DrainCpu_loop n bs slabs shift cpu (k + 1) ?m1)"
      using False by (simp add: DrainCpu_loop_calls_step [OF kn] Let_def head)
    then show ?thesis
      using rest by (simp add: upt)
  qed
qed

lemma CpuMemoryStart_offset:
  assumes "3 \<le> shift"
  shows "CpuMemoryStart slabs shift cpu = (slabs, int (cpu * (2 ^ shift div 8)))"
proof -
  obtain k where k: "shift = 3 + k"
    using assms by (auto simp: le_iff_add)
  have "(2::nat) ^ shift = 8 * 2 ^ (shift - 3)"
    unfolding k by (simp add: power_add)
  then show ?thesis
    by (simp add: CpuMemoryStart_def)
qed

lemma CpuMemoryStart_disjoint:
  assumes shift: "3 \<le> shift" and ne: "c \<noteq> c'"
    and a: "a < 2 ^ shift div 8" and b: "b < 2 ^ shift div 8"
  shows "ptr_add (CpuMemoryStart slabs shift c) (int a) \<noteq>
         ptr_add (CpuMemoryStart slabs shift c') (int b)"
proof
  let ?R = "(2::nat) ^ shift div 8"
  assume "ptr_add (CpuMemoryStart slabs shift c) (int a) =
          ptr_add (CpuMemoryStart slabs shift c') (int b)"
  then have "int (c * ?R + a) = int (c' * ?R + b)"
    by (simp add: CpuMemoryStart_offset [OF shift] ptr_add_def)
  then have eq: "c * ?R + a = c' * ?R + b"
    by (simp only: int_int_eq)
  have "(c * ?R + a) div ?R = c" "(c' * ?R + b) div ?R = c'"
    using a b by simp_all
  with eq ne show False
    by simp
qed

lemma DrainCpu_loop_other_cpu:
  assumes shift: "3 \<le> shift" and ne: "c \<noteq> cpu"
    and n: "n \<le> 2 ^ shift div 8" and j: "j < 2 ^ shift div 8"
  shows "snd (DrainCpu_loop n bs slabs shift cpu k m) (ptr_add (CpuMemoryStart slabs shift c) (int j)) =
         m (ptr_add (CpuMemoryStart slabs shift c) (int j))"
proof (rule DrainCpu_loop_frame)
  fix s assume "k \<le> s" "s < n"
  then have "s < 2 ^ shift div 8"
    using n by linarith
  then show "ptr_add (CpuMemoryStart slabs shift c) (int j) \<noteq> GetHeader slabs shift cpu s"
    unfolding GetHeader_def by (intro CpuMemoryStart_disjoint shift ne j)
qed

lemma DrainCpu_loop_other_header:
  assumes shift: "3 \<le> shift" and ne: "c \<noteq> cpu"
    and n: "n \<le> 2 ^ shift div 8" and s: "s < n"
  shows "LoadHeader (snd (DrainCpu_loop n bs slabs shift cpu k m)) (GetHeader slabs shift c s) =
         LoadHeader m (GetHeader slabs shift c s)"
proof -
  have "s < 2 ^ shift div 8"
    using n s by linarith
  then show ?thesis
    unfolding LoadHeader_def GetHeader_def
    by (simp only: DrainCpu_loop_other_cpu [OF shift ne n])
qed

lemma DrainCpu_loop_other_items:
  assumes shift: "3 \<le> shift" and ne: "c \<noteq> cpu"
    and n: "n \<le> 2 ^ shift div 8" and s: "s < n"
    and fit: "unat (current (LoadHeader m (GetHeader slabs shift c s))) \<le> 2 ^ shift div 8"
  shows "slab_items bs (snd (DrainCpu_loop n bs slabs shift cpu k m)) slabs shift c s =
         slab_items bs m slabs shift c s"
proof (rule slab_items_cong)
  show "LoadHeader (snd (DrainCpu_loop n bs slabs shift cpu k m)) (GetHeader slabs shift c s) =
        LoadHeader m (GetHeader slabs shift c s)"
    by (rule DrainCpu_loop_other_header [OF shift ne n s])
  fix j assume "j < unat (current (LoadHeader m (GetHeader slabs shift c s)))"
  then have "j < 2 ^ shift div 8"
    using fit by linarith
  then show "snd (DrainCpu_loop n bs slabs shift cpu k m) (ptr_add (CpuMemoryStart slabs shift c) (int j)) =
        m (ptr_add (CpuMemoryStart slabs shift c) (int j))"
    by (rule DrainCpu_loop_other_cpu [OF shift ne n])
qed

lemma slab_items_empty:
  "current (LoadHeader m (GetHeader slabs shift cpu s)) \<le> bs s \<Longrightarrow>
   slab_items bs m slabs shift cpu s = []"
  by (simp add: slab_items_def batch_items_def word_le_nat_alt)

lemma ResizeSlabs_drain_items:
  assumes shift: "3 \<le> shift" and nR: "num_classes st \<le> 2 ^ shift div 8"
    and above: "\<And>s. 1 \<le> s \<Longrightarrow> s < num_classes st \<Longrightarrow> num_classes st \<le> unat (begins st s)"
    and wf: "\<And>c s. cpu \<le> c \<Longrightarrow> c < num_cpus \<Longrightarrow> 1 \<le> s \<Longrightarrow> s < num_classes st \<Longrightarrow>
        current (LoadHeader (heap st) (GetHeader slabs shift c s)) = 0 \<or>
        begins st s \<le> current (LoadHeader (heap st) (GetHeader slabs shift c s))"
    and fit: "\<And>c s. cpu \<le> c \<Longrightarrow> c < num_cpus \<Longrightarrow> 1 \<le> s \<Longrightarrow> s < num_classes st \<Longrightarrow>
        unat (current (LoadHeader (heap st) (GetHeader slabs shift c s))) \<le> 2 ^ shift div 8"
    and unpop: "\<And>c s. cpu \<le> c \<Longrightarrow> c < num_cpus \<Longrightarrow> \<not> populated c \<Longrightarrow> 1 \<le> s \<Longrightarrow>
        s < num_classes st \<Longrightarrow>
        current (LoadHeader (heap st) (GetHeader slabs shift c s)) \<le> begins st s"
  shows "concat (map drain_items (map delivered (fst (ResizeSlabs_drain num_cpus populated slabs shift cpu st)))) =
         concat (map (\<lambda>c. concat (map (slab_items (begins st) (heap st) slabs shift c) [1..<num_classes st]))
           [cpu..<num_cpus])"
  using assms
proof (induction "num_cpus - cpu" arbitrary: cpu st)
  case 0
  then show ?case
    by (subst ResizeSlabs_drain.simps) simp
next
  case (Suc d)
  then have lt: "cpu < num_cpus" by linarith
  have d: "d = num_cpus - (cpu + 1)"
    using Suc.hyps(2) by linarith
  have upt: "[cpu..<num_cpus] = cpu # [cpu + 1..<num_cpus]"
    using lt by (simp add: upt_conv_Cons)
  let ?n = "num_classes st"
  let ?bs = "begins st"
  note shift = Suc.prems(1) and nR = Suc.prems(2) and above = Suc.prems(3) and wf = Suc.prems(4)
    and fit = Suc.prems(5) and unpop = Suc.prems(6)
  show ?case
  proof (cases "populated cpu")
    case False
    have "concat (map (slab_items ?bs (heap st) slabs shift cpu) [1..<?n]) = []"
      using False lt by (auto intro!: slab_items_empty unpop)
    moreover have "concat (map drain_items (map delivered (fst (ResizeSlabs_drain num_cpus populated slabs shift (cpu + 1) st)))) =
         concat (map (\<lambda>c. concat (map (slab_items ?bs (heap st) slabs shift c) [1..<?n]))
           [cpu + 1..<num_cpus])"
      by (rule Suc.hyps(1) [OF d shift nR above wf fit unpop]) simp_all
    moreover have "fst (ResizeSlabs_drain num_cpus populated slabs shift cpu st) =
        fst (ResizeSlabs_drain num_cpus populated slabs shift (cpu + 1) st)"
      using False lt by (subst ResizeSlabs_drain.simps) simp
    ultimately show ?thesis
      by (simp add: upt)
  next
    case True
    let ?loop = "DrainCpu_loop ?n ?bs slabs shift cpu 1 (heap st)"
    let ?st1 = "st\<lparr>heap := snd ?loop\<rparr>"
    have drain: "DrainCpu st slabs shift cpu = (fst ?loop, ?st1)"
      by (simp add: DrainCpu_def split_beta)
    have head: "concat (map drain_items (fst ?loop)) =
        concat (map (slab_items ?bs (heap st) slabs shift cpu) [1..<?n])"
      using lt by (intro DrainCpu_loop_items above wf) simp_all
    have hsame: "LoadHeader (heap ?st1) (GetHeader slabs shift c s) =
        LoadHeader (heap st) (GetHeader slabs shift c s)"
      if "cpu + 1 \<le> c" "s < ?n" for c s
      using that by (simp add: DrainCpu_loop_other_header [OF shift _ nR])
    have isame: "slab_items ?bs (heap ?st1) slabs shift c s = slab_items ?bs (heap st) slabs shift c s"
      if "cpu + 1 \<le> c" "c < num_cpus" "1 \<le> s" "s < ?n" for c s
      using that by (simp add: DrainCpu_loop_other_items [OF shift _ nR] fit)
    have "concat (map drain_items (map delivered (fst (ResizeSlabs_drain num_cpus populated slabs shift (cpu + 1) ?st1)))) =
         concat (map (\<lambda>c. concat (map (slab_items (begins ?st1) (heap ?st1) slabs shift c)
           [1..<num_classes ?st1])) [cpu + 1..<num_cpus])"
    proof (rule Suc.hyps(1) [OF d shift])
      show "num_classes ?st1 \<le> 2 ^ shift div 8"
        using nR by simp
      show "num_classes ?st1 \<le> unat (begins ?st1 s)" if "1 \<le> s" "s < num_classes ?st1" for s
        using that above by simp
      show "current (LoadHeader (heap ?st1) (GetHeader slabs shift c s)) = 0 \<or>
          begins ?st1 s \<le> current (LoadHeader (heap ?st1) (GetHeader slabs shift c s))"
        if c: "cpu + 1 \<le> c" "c < num_cpus" and s: "1 \<le> s" "s < num_classes ?st1" for c s
      proof -
        have "s < ?n" using s by simp
        from hsame [OF c(1) this] wf [of c s] c s show ?thesis
          by simp
      qed
      show "unat (current (LoadHeader (heap ?st1) (GetHeader slabs shift c s))) \<le> 2 ^ shift div 8"
        if c: "cpu + 1 \<le> c" "c < num_cpus" and s: "1 \<le> s" "s < num_classes ?st1" for c s
      proof -
        have "s < ?n" using s by simp
        from hsame [OF c(1) this] fit [of c s] c s show ?thesis
          by simp
      qed
      show "current (LoadHeader (heap ?st1) (GetHeader slabs shift c s)) \<le> begins ?st1 s"
        if c: "cpu + 1 \<le> c" "c < num_cpus" "\<not> populated c" and s: "1 \<le> s" "s < num_classes ?st1" for c s
      proof -
        have "s < ?n" using s by simp
        from hsame [OF c(1) this] unpop [of c s] c s show ?thesis
          by simp
      qed
    qed
    also have "\<dots> = concat (map (\<lambda>c. concat (map (slab_items ?bs (heap st) slabs shift c) [1..<?n]))
           [cpu + 1..<num_cpus])"
    proof -
      have inner: "concat (map (slab_items (begins ?st1) (heap ?st1) slabs shift c) [1..<num_classes ?st1]) =
          concat (map (slab_items ?bs (heap st) slabs shift c) [1..<?n])"
        if c: "c \<in> set [cpu + 1..<num_cpus]" for c
      proof -
        have b: "begins ?st1 = ?bs" "num_classes ?st1 = ?n"
          by simp_all
        show ?thesis
          unfolding b using c
          by (intro arg_cong [where f = concat] map_cong refl isame) simp_all
      qed
      have "map (\<lambda>c. concat (map (slab_items (begins ?st1) (heap ?st1) slabs shift c)
            [1..<num_classes ?st1])) [cpu + 1..<num_cpus] =
          map (\<lambda>c. concat (map (slab_items ?bs (heap st) slabs shift c) [1..<?n]))
            [cpu + 1..<num_cpus]"
        by (rule map_cong [OF refl]) (rule inner)
      then show ?thesis
        by (rule arg_cong)
    qed
    finally have rest: "concat (map drain_items
          (map delivered (fst (ResizeSlabs_drain num_cpus populated slabs shift (cpu + 1) ?st1)))) =
        concat (map (\<lambda>c. concat (map (slab_items ?bs (heap st) slabs shift c) [1..<?n]))
           [cpu + 1..<num_cpus])" .
    have "fst (ResizeSlabs_drain num_cpus populated slabs shift cpu st) =
        map (\<lambda>c. \<lparr>visible = slabs_and_shift st, delivered = c\<rparr>) (fst ?loop) @
        fst (ResizeSlabs_drain num_cpus populated slabs shift (cpu + 1) ?st1)"
      using True lt by (subst ResizeSlabs_drain.simps) (simp add: drain split_beta)
    then show ?thesis
      using rest head by (simp add: upt comp_def)
  qed
qed

lemma ResizeSlabs_drain_visible:
  "d \<in> set (fst (ResizeSlabs_drain num_cpus populated slabs shift cpu st)) \<Longrightarrow>
   visible d = slabs_and_shift st"
proof (induction "num_cpus - cpu" arbitrary: cpu st)
  case 0
  then show ?case
    by (subst (asm) ResizeSlabs_drain.simps) simp
next
  case (Suc n)
  then have lt: "cpu < num_cpus" by linarith
  have n: "n = num_cpus - (cpu + 1)"
    using Suc.hyps(2) by linarith
  show ?case
  proof (cases "populated cpu")
    case False
    then have "fst (ResizeSlabs_drain num_cpus populated slabs shift cpu st) =
        fst (ResizeSlabs_drain num_cpus populated slabs shift (cpu + 1) st)"
      using lt by (subst ResizeSlabs_drain.simps) simp
    with Suc.prems Suc.hyps(1) [OF n] show ?thesis
      by simp
  next
    case True
    let ?loop = "DrainCpu_loop (num_classes st) (begins st) slabs shift cpu 1 (heap st)"
    let ?st1 = "st\<lparr>heap := snd ?loop\<rparr>"
    have "fst (ResizeSlabs_drain num_cpus populated slabs shift cpu st) =
        map (\<lambda>c. \<lparr>visible = slabs_and_shift st, delivered = c\<rparr>) (fst ?loop) @
        fst (ResizeSlabs_drain num_cpus populated slabs shift (cpu + 1) ?st1)"
      using True lt by (subst ResizeSlabs_drain.simps) (simp add: DrainCpu_def split_beta)
    with Suc.prems consider
      "d \<in> set (map (\<lambda>c. \<lparr>visible = slabs_and_shift st, delivered = c\<rparr>) (fst ?loop))"
      | "d \<in> set (fst (ResizeSlabs_drain num_cpus populated slabs shift (cpu + 1) ?st1))"
      by auto
    then show ?thesis
    proof cases
      case 1
      then show ?thesis
        by auto
    next
      case 2
      from Suc.hyps(1) [OF n 2] show ?thesis
        by simp
    qed
  qed
qed

lemma ResizeSlabs_start_slabs_and_shift:
  "slabs_and_shift (ResizeSlabs_start num_cpus cpu st) = slabs_and_shift st"
proof (induction "num_cpus - cpu" arbitrary: cpu st)
  case 0
  then show ?case
    by (subst ResizeSlabs_start.simps) simp
next
  case (Suc n)
  then have lt: "cpu < num_cpus" by linarith
  have n: "n = num_cpus - (cpu + 1)"
    using Suc.hyps(2) by linarith
  show ?case
    using lt Suc.hyps(1) [OF n] by (subst ResizeSlabs_start.simps) simp
qed

lemma InitCpuImpl_slabs_and_shift:
  "InitCpuImpl st slabs shift cpu init_begins capacity = Inr st' \<Longrightarrow>
   slabs_and_shift st' = slabs_and_shift st"
  by (auto simp: InitCpuImpl_def split: if_splits sum.splits)

lemma fst_slab_ptr: "fst (ptr_add (CpuMemoryStart slabs shift cpu) i) = slabs"
  by (simp add: ptr_add_def CpuMemoryStart_def)

lemma ResizeSlabs_phases:
  assumes "ResizeSlabs st num_cpus new_shift new_slabs capacity populated = Inr (ds, info, st')"
    and "slabs_and_shift st = (slabs, shift)"
  obtains st1 st4 where
    "ResizeSlabs_stop num_cpus populated capacity new_slabs new_shift 0 st = Inr st1"
    "ds = fst (ResizeSlabs_drain num_cpus populated slabs shift 0 st1)"
    "InitCpuImpl (snd (ResizeSlabs_drain num_cpus populated slabs shift 0 st1)
        \<lparr>slabs_and_shift := (new_slabs, new_shift)\<rparr>) new_slabs new_shift 0 True capacity = Inr st4"
    "st' = ResizeSlabs_start num_cpus 0 st4"
  using assms
  by (auto simp: ResizeSlabs_def Let_def split_beta split: sum.splits)

text \<open>
  What \<open>ResizeSlabs\<close> does on a bank that is laid out as \<open>Init\<close> lays it out. Let it return,
  for a new bank that is another allocation than the old one, where the headers of a CPU fit
  its region, the slots lie above them, \<open>current\<close> of a header is 0 or not below \<open>begins_[s]\<close>
  and inside the region, and a CPU that \<open>populated\<close> does not report holds no object. Then
  \<open>slabs_and_shift_\<close> holds \<open>(new_slabs, new_shift)\<close> afterwards, every call of \<open>drain_handler\<close>
  was made while it still held the old pair, and the objects handed to the handler are the
  objects of the old bank, each slot once.
\<close>

lemma ResizeSlabs_drains_old_bank_before_publishing:
  assumes run: "ResizeSlabs st num_cpus new_shift new_slabs capacity populated = Inr (ds, info, st')"
    and old: "slabs_and_shift st = (slabs, shift)"
    and fresh: "new_slabs \<noteq> slabs"
    and shift: "3 \<le> shift"
    and nR: "num_classes st \<le> 2 ^ shift div 8"
    and above: "\<forall>s. 1 \<le> s \<and> s < num_classes st \<longrightarrow> num_classes st \<le> unat (begins st s)"
    and wf: "\<forall>cpu s. cpu < num_cpus \<and> 1 \<le> s \<and> s < num_classes st \<longrightarrow>
        (current (LoadHeader (heap st) (GetHeader slabs shift cpu s)) = 0 \<or>
         begins st s \<le> current (LoadHeader (heap st) (GetHeader slabs shift cpu s))) \<and>
        unat (current (LoadHeader (heap st) (GetHeader slabs shift cpu s))) \<le> 2 ^ shift div 8"
    and unpop: "\<forall>cpu s. cpu < num_cpus \<and> \<not> populated cpu \<and> 1 \<le> s \<and> s < num_classes st \<longrightarrow>
        current (LoadHeader (heap st) (GetHeader slabs shift cpu s)) \<le> begins st s"
  shows "slabs_and_shift st' = (new_slabs, new_shift) \<and>
      (\<forall>d \<in> set ds. visible d = (slabs, shift)) \<and>
      concat (map drain_items (map delivered ds)) = bank_items st slabs shift num_cpus"
proof -
  from run old obtain st1 st4 where
    stop: "ResizeSlabs_stop num_cpus populated capacity new_slabs new_shift 0 st = Inr st1"
    and ds: "ds = fst (ResizeSlabs_drain num_cpus populated slabs shift 0 st1)"
    and init: "InitCpuImpl (snd (ResizeSlabs_drain num_cpus populated slabs shift 0 st1)
        \<lparr>slabs_and_shift := (new_slabs, new_shift)\<rparr>) new_slabs new_shift 0 True capacity = Inr st4"
    and st': "st' = ResizeSlabs_start num_cpus 0 st4"
    by (rule ResizeSlabs_phases)
  note frame = ResizeSlabs_stop_frame [OF stop]
  have n1: "num_classes st1 = num_classes st"
    by (rule frame [THEN conjunct1])
  have b1: "begins st1 = begins st"
    by (rule frame [THEN conjunct2, THEN conjunct1])
  have s1: "slabs_and_shift st1 = (slabs, shift)"
    using frame old by simp
  have m1: "heap st1 p = heap st p" if "fst p \<noteq> new_slabs" for p
    using frame that by blast
  have slot: "heap st1 (ptr_add (CpuMemoryStart slabs shift cpu) i) =
      heap st (ptr_add (CpuMemoryStart slabs shift cpu) i)" for cpu i
    using fresh by (intro m1) (simp add: fst_slab_ptr)
  have hdr: "LoadHeader (heap st1) (GetHeader slabs shift cpu s) =
      LoadHeader (heap st) (GetHeader slabs shift cpu s)" for cpu s
    unfolding LoadHeader_def GetHeader_def by (simp only: slot)
  have items: "slab_items (begins st) (heap st1) slabs shift cpu =
      slab_items (begins st) (heap st) slabs shift cpu" for cpu
    by (rule ext, rule slab_items_cong) (simp_all only: hdr slot)
  have "concat (map drain_items (map delivered
        (fst (ResizeSlabs_drain num_cpus populated slabs shift 0 st1)))) =
      concat (map (\<lambda>c. concat (map (slab_items (begins st1) (heap st1) slabs shift c)
        [1..<num_classes st1])) [0..<num_cpus])"
  proof (rule ResizeSlabs_drain_items [OF shift])
    show "num_classes st1 \<le> 2 ^ shift div 8"
      using nR by (simp only: n1)
    show "num_classes st1 \<le> unat (begins st1 s)" if "1 \<le> s" "s < num_classes st1" for s
      using above that by (simp add: n1 b1)
    show "current (LoadHeader (heap st1) (GetHeader slabs shift c s)) = 0 \<or>
        begins st1 s \<le> current (LoadHeader (heap st1) (GetHeader slabs shift c s))"
      if "c < num_cpus" "1 \<le> s" "s < num_classes st1" for c s
      using wf that by (simp add: n1 b1 hdr)
    show "unat (current (LoadHeader (heap st1) (GetHeader slabs shift c s))) \<le> 2 ^ shift div 8"
      if "c < num_cpus" "1 \<le> s" "s < num_classes st1" for c s
      using wf that by (simp add: n1 b1 hdr)
    show "current (LoadHeader (heap st1) (GetHeader slabs shift c s)) \<le> begins st1 s"
      if "c < num_cpus" "\<not> populated c" "1 \<le> s" "s < num_classes st1" for c s
      using unpop that by (simp add: n1 b1 hdr)
  qed
  then have delivered: "concat (map drain_items (map delivered ds)) = bank_items st slabs shift num_cpus"
    by (simp only: ds bank_items_def n1 b1 items)
  have seen: "\<forall>d \<in> set ds. visible d = (slabs, shift)"
    unfolding ds using ResizeSlabs_drain_visible [where st = st1] by (simp add: s1)
  have "slabs_and_shift st4 = (new_slabs, new_shift)"
    using InitCpuImpl_slabs_and_shift [OF init] by simp
  then have published: "slabs_and_shift st' = (new_slabs, new_shift)"
    by (simp add: st' ResizeSlabs_start_slabs_and_shift)
  from published seen delivered show ?thesis
    by (intro conjI)
qed

text \<open>
  The scenario of the spec: a resize to shift 19 with CPU 0 populated, whose slab of size class
  1 holds the object \<open>0xAA\<close>.
\<close>

lemma ex_resize:
  "\<exists>info st'. ResizeSlabs ex_running 2 19 0x200000 ex_capacity ex_populated =
     Inr ([\<lparr>visible = (0x10000, 18),
            delivered = \<lparr>drain_cpu = 0, drain_class = 1, drain_batch = (0x10000, 4),
              drain_size = 1, drain_cap = 2, drain_items = [0xAA]\<rparr>\<rparr>], info, st')"
  by (simp add: ResizeSlabs_def ResizeSlabs_stop.simps ResizeSlabs_drain.simps ResizeSlabs_start.simps
      InitCpuImpl_def InitCpuImpl_loop.simps DrainCpu_def DrainCpu_loop.simps
      ex_running_def ex_populated_def ex_capacity_def ex_mem_def Let_def
      CpuMemoryStart_def GetHeader_def ptr_add_def uintptr_def kBeginMark_def
      LoadHeader_def StoreHeader_def bit_cast_Header_int64 bit_cast_Header_0 batch_items_def)

lemma ex_bank_headers:
  assumes "cpu < 2" and "1 \<le> s \<and> s < 3"
  shows "current (LoadHeader ex_mem (GetHeader 0x10000 18 cpu s)) = (if cpu = 0 \<and> s = 1 then 5 else 0)"
proof -
  from assms have "cpu = 0 \<or> cpu = 1" "s = 1 \<or> s = 2"
    by auto
  then show ?thesis
    by (auto simp: ex_mem_def LoadHeader_def GetHeader_def CpuMemoryStart_def ptr_add_def
        bit_cast_Header_int64 bit_cast_Header_0)
qed

lemma ex_bank_begins:
  assumes "1 \<le> s \<and> s < 3"
  shows "begins ex_running s = (if s = 1 then 4 else 7)"
proof -
  from assms have "s = 1 \<or> s = 2"
    by auto
  then show ?thesis
    by (auto simp: ex_running_def)
qed

lemma ex_bank_items: "bank_items ex_running 0x10000 18 2 = [0xAA]"
proof -
  have upt: "[0..<2] = [0, 1 :: nat]" "[1..<3] = [1, 2 :: nat]"
    by (simp_all add: upt_rec)
  show ?thesis
    unfolding bank_items_def ex_running_facts upt
    by (simp add: slab_items_def batch_items_def ex_running_def ex_mem_def LoadHeader_def
        GetHeader_def CpuMemoryStart_def ptr_add_def bit_cast_Header_int64 bit_cast_Header_0)
qed

lemma ResizeSlabs_drains_old_bank_before_publishing_ex:
  "\<exists>ds info st'.
     ResizeSlabs ex_running 2 19 0x200000 ex_capacity ex_populated = Inr (ds, info, st') \<and>
     slabs_and_shift st' = (0x200000, 19) \<and>
     (\<forall>d \<in> set ds. visible d = (0x10000, 18)) \<and>
     concat (map drain_items (map delivered ds)) = [0xAA]"
proof -
  from ex_resize obtain ds info st' where
    run: "ResizeSlabs ex_running 2 19 0x200000 ex_capacity ex_populated = Inr (ds, info, st')"
    by blast
  have fresh: "(0x200000 :: 64 word) \<noteq> 0x10000"
    by simp
  have shift: "(3 :: nat) \<le> 18"
    by simp
  have nR: "num_classes ex_running \<le> 2 ^ 18 div 8"
    by (simp add: ex_running_facts)
  have above: "\<forall>s. 1 \<le> s \<and> s < num_classes ex_running \<longrightarrow>
      num_classes ex_running \<le> unat (begins ex_running s)"
    unfolding ex_running_facts(3) by (simp add: ex_bank_begins)
  have wf: "\<forall>cpu s. cpu < 2 \<and> 1 \<le> s \<and> s < num_classes ex_running \<longrightarrow>
      (current (LoadHeader (heap ex_running) (GetHeader 0x10000 18 cpu s)) = 0 \<or>
       begins ex_running s \<le> current (LoadHeader (heap ex_running) (GetHeader 0x10000 18 cpu s))) \<and>
      unat (current (LoadHeader (heap ex_running) (GetHeader 0x10000 18 cpu s))) \<le> 2 ^ 18 div 8"
    unfolding ex_running_facts(3,4) by (simp add: ex_bank_headers ex_bank_begins)
  have unpop: "\<forall>cpu s. cpu < 2 \<and> \<not> ex_populated cpu \<and> 1 \<le> s \<and> s < num_classes ex_running \<longrightarrow>
      current (LoadHeader (heap ex_running) (GetHeader 0x10000 18 cpu s)) \<le> begins ex_running s"
    unfolding ex_running_facts(3,4) by (simp add: ex_bank_headers ex_populated_def)
  note th = ResizeSlabs_drains_old_bank_before_publishing
    [OF run ex_running_facts(2) fresh shift nR above wf unpop]
  have "ResizeSlabs ex_running 2 19 0x200000 ex_capacity ex_populated = Inr (ds, info, st') \<and>
     slabs_and_shift st' = (0x200000, 19) \<and>
     (\<forall>d \<in> set ds. visible d = (0x10000, 18)) \<and>
     concat (map drain_items (map delivered ds)) = [0xAA]"
    using run th unfolding ex_bank_items by (intro conjI) blast+
  then show ?thesis
    by (intro exI)
qed


end
